theory Spec2Isabelle
  imports Main "HOL-Library.Word" "HOL-Library.Signed_Division"
begin

unbundle bit_operations_syntax

section \<open>Return codes\<close>

text \<open>
  The functions of both subsystems return a C \<open>int\<close> holding one of libknot's error
  codes. The header that numbers them (libknot/errcode.h) is not among the sources, so
  the codes are kept symbolic. \<open>KNOT_ERRNO e\<close> is what \<open>knot_map_errno()\<close> yields
  after a failed system call that left \<open>errno = e\<close>, for an \<open>e\<close> without a constructor
  of its own; \<open>KNOT_OTHER n\<close> is any other code handed through from a library.
\<close>

datatype knot_ret =
    KNOT_EOK
  | KNOT_EINVAL
  | KNOT_ENOMEM
  | KNOT_ENOTSUP
  | KNOT_EBUSY
  | KNOT_ENOENT
  | KNOT_ERROR
  | KNOT_EEMPTYZONE
  | KNOT_ESEMCHECK
  | KNOT_INVALID_PUBLIC_KEY
  | KNOT_DNSSEC_ENOSIG
  | KNOT_DNSSEC_ENSEC_BITMAP
  | KNOT_DNSSEC_ENSEC_CHAIN
  | KNOT_DNSSEC_ENSEC3_OPTOUT
  | KNOT_NET_ECONNECT
  | KNOT_NET_ESEND
  | KNOT_NET_ERECV
  | KNOT_NET_ETIMEOUT
  | KNOT_ERRNO nat
  | KNOT_OTHER int

section \<open>Zone semantic checks (knot/zone/semantic-check.c)\<close>

subsection \<open>Data model\<close>

type_synonym byte = "8 word"
type_synonym dname = "byte list"

text \<open>A \<open>knot_rdata_t\<close> is a length and that many bytes: a byte list.\<close>

type_synonym rdata = "byte list"

datatype rrtype =
    KNOT_RRTYPE_A
  | KNOT_RRTYPE_NS
  | KNOT_RRTYPE_CNAME
  | KNOT_RRTYPE_SOA
  | KNOT_RRTYPE_AAAA
  | KNOT_RRTYPE_DNAME
  | KNOT_RRTYPE_DS
  | KNOT_RRTYPE_RRSIG
  | KNOT_RRTYPE_NSEC
  | KNOT_RRTYPE_DNSKEY
  | KNOT_RRTYPE_NSEC3PARAM
  | KNOT_RRTYPE_CDS
  | KNOT_RRTYPE_CDNSKEY
  | KNOT_RRTYPE_OTHER nat

datatype node_flag = NODE_FLAGS_DELEG | NODE_FLAGS_NONAUTH | NODE_FLAGS_APEX

text \<open>
  A zone node: its owner, its flags, its RRSets by type (\<open>rrset_count\<close> is their
  number), the number of its children, and whether it has an NSEC3-side node
  (\<open>node_nsec3_get(node) != NULL\<close>).
\<close>

record zone_node =
  owner :: dname
  flags :: "node_flag set"
  rrs :: "(rrtype \<times> rdata list) list"
  children :: nat
  has_nsec3_node :: bool

text \<open>
  The zone: its nodes in the order the in-order walk visits them. A node pointer is the
  node's position in that list, so that the pointer comparisons of the source
  (\<open>data->zone->apex == node\<close>) are comparisons of positions.
\<close>

record zone_contents =
  apex :: nat
  nodes :: "zone_node list"
  dnssec :: bool

definition node_of :: "zone_contents \<Rightarrow> nat \<Rightarrow> zone_node" where
  "node_of z n = nodes z ! n"

definition node_rdataset :: "zone_node \<Rightarrow> rrtype \<Rightarrow> rdata list option" where
  "node_rdataset node t = map_of (rrs node) t"

text \<open>\<open>node_rrtype_exists\<close> accepts a null node and answers false for it.\<close>

definition node_rrtype_exists :: "zone_node option \<Rightarrow> rrtype \<Rightarrow> bool" where
  "node_rrtype_exists node t =
     (case node of None \<Rightarrow> False | Some n \<Rightarrow> node_rdataset n t \<noteq> None)"

definition rrset_count :: "zone_node \<Rightarrow> nat" where
  "rrset_count node = length (rrs node)"

datatype sem_error =
    SEM_ERR_SOA_NONE
  | SEM_ERR_CNAME_EXTRA_RECORDS
  | SEM_ERR_CNAME_MULTIPLE
  | SEM_ERR_DNAME_CHILDREN
  | SEM_ERR_DNAME_MULTIPLE
  | SEM_ERR_DNAME_EXTRA_NS
  | SEM_ERR_NS_APEX
  | SEM_ERR_NS_GLUE
  | SEM_ERR_RRSIG_RDATA_TYPE_COVERED
  | SEM_ERR_RRSIG_RDATA_TTL
  | SEM_ERR_RRSIG_RDATA_EXPIRATION
  | SEM_ERR_RRSIG_RDATA_INCEPTION
  | SEM_ERR_RRSIG_RDATA_LABELS
  | SEM_ERR_RRSIG_RDATA_OWNER
  | SEM_ERR_RRSIG_NO_RRSIG
  | SEM_ERR_RRSIG_SIGNED
  | SEM_ERR_RRSIG_UNVERIFIABLE
  | SEM_ERR_NSEC_NONE
  | SEM_ERR_NSEC_RDATA_BITMAP
  | SEM_ERR_NSEC_RDATA_MULTIPLE
  | SEM_ERR_NSEC_RDATA_CHAIN
  | SEM_ERR_NSEC3_NONE
  | SEM_ERR_NSEC3_INSECURE_DELEGATION_OPT
  | SEM_ERR_NSEC3_EXTRA_RECORD
  | SEM_ERR_NSEC3_RDATA_TTL
  | SEM_ERR_NSEC3_RDATA_CHAIN
  | SEM_ERR_NSEC3_RDATA_BITMAP
  | SEM_ERR_NSEC3_RDATA_FLAGS
  | SEM_ERR_NSEC3_RDATA_SALT
  | SEM_ERR_NSEC3_RDATA_ALG
  | SEM_ERR_NSEC3_RDATA_ITERS
  | SEM_ERR_NSEC3PARAM_RDATA_FLAGS
  | SEM_ERR_NSEC3PARAM_RDATA_ALG
  | SEM_ERR_DS_RDATA_ALG
  | SEM_ERR_DS_RDATA_DIGLEN
  | SEM_ERR_DNSKEY_NONE
  | SEM_ERR_DNSKEY_INVALID
  | SEM_ERR_DNSKEY_RDATA_PROTOCOL
  | SEM_ERR_CDS_NONE
  | SEM_ERR_CDS_NOT_MATCH
  | SEM_ERR_CDNSKEY_NONE
  | SEM_ERR_CDNSKEY_NO_DNSKEY
  | SEM_ERR_CDNSKEY_NO_CDS
  | SEM_ERR_CDNSKEY_INVALID_DELETE
  | SEM_ERR_UNKNOWN

text \<open>
  The handler (\<open>sem_handler_t\<close>). Its callback is supplied by the caller of the
  checker; it receives the handler and may write its flags, so it is a function from
  the flags \<open>(error, fatal_error)\<close> before the call to the flags after it.
\<close>

type_synonym sem_callback =
  "bool \<times> bool \<Rightarrow> zone_contents \<Rightarrow> dname \<Rightarrow> sem_error \<Rightarrow> string option \<Rightarrow> bool \<times> bool"

record sem_handler =
  cb :: sem_callback
  error :: bool
  fatal_error :: bool

text \<open>One invocation of the callback, as the checker made it.\<close>

record finding =
  f_owner :: dname
  f_code :: sem_error
  f_info :: "string option"

type_synonym check_level_t = "32 word"

definition MANDATORY :: check_level_t where "MANDATORY = push_bit 0 1"
definition OPTIONAL :: check_level_t where "OPTIONAL = push_bit 1 1"
definition NSEC :: check_level_t where "NSEC = push_bit 2 1"
definition NSEC3 :: check_level_t where "NSEC3 = push_bit 3 1"

text \<open>
  \<open>semchecks_data_t\<close>. The field \<open>calls\<close> is not in the source: it lists the
  callback invocations made so far, in order.
\<close>

record semchecks_data =
  zone :: zone_contents
  handler :: sem_handler
  next_nsec :: nat
  level :: check_level_t
  time :: int
  calls :: "finding list"

text \<open>\<open>data->handler->cb(data->handler, data->zone, owner, code, info)\<close>\<close>

definition handler_cb ::
  "sem_handler \<Rightarrow> zone_contents \<Rightarrow> dname \<Rightarrow> sem_error \<Rightarrow> string option \<Rightarrow> sem_handler"
where
  "handler_cb h z ow code info =
     (case cb h (error h, fatal_error h) z ow code info of
        (e, f) \<Rightarrow> h\<lparr>error := e, fatal_error := f\<rparr>)"

definition emit ::
  "semchecks_data \<Rightarrow> dname \<Rightarrow> sem_error \<Rightarrow> string option \<Rightarrow> semchecks_data"
where
  "emit d ow code info =
     d\<lparr>handler := handler_cb (handler d) (zone d) ow code info,
       calls := calls d @ [\<lparr>f_owner = ow, f_code = code, f_info = info\<rparr>]\<rparr>"

text \<open>\<open>data->handler->error = true\<close>\<close>

definition set_error :: "semchecks_data \<Rightarrow> semchecks_data" where
  "set_error d = d\<lparr>handler := (handler d)\<lparr>error := True\<rparr>\<rparr>"

subsection \<open>The libraries the checks call\<close>

text \<open>
  The zone library and libdnssec are not among the sources; the checks take what they
  call from them as parameters.
  \<^item> \<open>zone_contents_find_dname\<close> answers with the switch's four cases: the name is out
    of the zone, is not found (with its closest encloser), is found (with its node), or
    the lookup failed with a code.
  \<^item> \<open>zone_contents_find_node\<close> gives the node of a name, or null.
  \<^item> \<open>dnssec_key_from_rdata\<close> and \<open>dnssec_key_create_ds\<close> return a code and their
    output parameter.
  \<^item> \<open>knot_dnssec_validate_zone\<close> returns a code and the validation hint (node and
    type), if it left one.
\<close>

datatype find_dname_result =
    FIND_EOUTOFZONE
  | ZONE_NAME_NOT_FOUND nat
  | ZONE_NAME_FOUND nat
  | FIND_FAILED knot_ret

record 'k sem_lib =
  zone_contents_find_dname :: "zone_contents \<Rightarrow> dname \<Rightarrow> find_dname_result"
  zone_contents_find_node :: "zone_contents \<Rightarrow> dname \<Rightarrow> nat option"
  dnssec_algorithm_digest_support :: "byte \<Rightarrow> bool"
  dnssec_key_from_rdata :: "dname \<Rightarrow> rdata \<Rightarrow> knot_ret \<times> 'k"
  dnssec_key_create_ds :: "'k \<Rightarrow> byte \<Rightarrow> knot_ret \<times> rdata"
  knot_dnssec_validate_zone :: "zone_contents \<Rightarrow> int \<Rightarrow> knot_ret \<times> (dname \<times> rrtype) option"
  knot_rrtype_to_string :: "rrtype \<Rightarrow> string"

text \<open>
  The accessors of libknot read a record's wire format: a DS (and a CDS) is key tag (2
  bytes, network order), algorithm, digest type, digest; an NSEC3PARAM is algorithm,
  flags, iterations, salt. The zone loader admits no shorter record; on one, the model
  reads the missing bytes as zero, where the source would read past the record.
\<close>

definition byte_at :: "rdata \<Rightarrow> nat \<Rightarrow> byte" where
  "byte_at r i = (if i < length r then r ! i else 0)"

definition knot_ds_key_tag :: "rdata \<Rightarrow> 16 word" where
  "knot_ds_key_tag r = push_bit 8 (ucast (byte_at r 0)) OR ucast (byte_at r 1)"

definition knot_ds_digest_type :: "rdata \<Rightarrow> byte" where
  "knot_ds_digest_type r = byte_at r 3"

definition knot_ds_digest_len :: "rdata \<Rightarrow> 16 word" where
  "knot_ds_digest_len r = of_nat (length r) - 4"

definition knot_nsec3param_alg :: "rdata \<Rightarrow> byte" where
  "knot_nsec3param_alg r = byte_at r 0"

definition knot_nsec3param_flags :: "rdata \<Rightarrow> byte" where
  "knot_nsec3param_flags r = byte_at r 1"

definition knot_ns_name :: "rdata \<Rightarrow> dname" where
  "knot_ns_name r = r"

subsection \<open>The checks\<close>

text \<open>
  Each check takes the node (its position) and the context, and returns its code and
  the context after it.
\<close>

text \<open>The loop of \<open>check_delegation\<close> over the NS records: glue for each target.\<close>

fun check_glue ::
  "'k sem_lib \<Rightarrow> nat \<Rightarrow> rdata list \<Rightarrow> semchecks_data \<Rightarrow> knot_ret \<times> semchecks_data"
where
  "check_glue lib node [] d = (KNOT_EOK, d)"
| "check_glue lib node (ns_rr # rest) d =
     (let report = (\<lambda>glue_node.
            if \<not> node_rrtype_exists glue_node KNOT_RRTYPE_A \<and>
               \<not> node_rrtype_exists glue_node KNOT_RRTYPE_AAAA
            then emit d (owner (node_of (zone d) node)) SEM_ERR_NS_GLUE None
            else d)
      in case zone_contents_find_dname lib (zone d) (knot_ns_name ns_rr) of
           FIND_EOUTOFZONE \<Rightarrow> check_glue lib node rest d
         | ZONE_NAME_NOT_FOUND glue_encloser \<Rightarrow>
             if glue_encloser \<noteq> node \<and>
                flags (node_of (zone d) glue_encloser)
                  \<inter> {NODE_FLAGS_DELEG, NODE_FLAGS_NONAUTH} \<noteq> {}
             then check_glue lib node rest d
             else
               let wildcard = [1, 42] @ owner (node_of (zone d) glue_encloser);
                   glue_node = zone_contents_find_node lib (zone d) wildcard
               in check_glue lib node rest
                    (report (map_option (node_of (zone d)) glue_node))
         | ZONE_NAME_FOUND glue_node \<Rightarrow>
             check_glue lib node rest (report (Some (node_of (zone d) glue_node)))
         | FIND_FAILED ret \<Rightarrow> (ret, d))"

definition check_delegation ::
  "'k sem_lib \<Rightarrow> nat \<Rightarrow> semchecks_data \<Rightarrow> knot_ret \<times> semchecks_data"
where
  "check_delegation lib node d =
     (if \<not> (NODE_FLAGS_DELEG \<in> flags (node_of (zone d) node) \<or> apex (zone d) = node)
      then (KNOT_EOK, d)
      else if level d AND OPTIONAL = 0 \<and> apex (zone d) \<noteq> node
      then (KNOT_EOK, d)
      else
        case node_rdataset (node_of (zone d) node) KNOT_RRTYPE_NS of
          None \<Rightarrow>
            (KNOT_EOK, emit d (owner (node_of (zone d) node)) SEM_ERR_NS_APEX None)
        | Some ns_rrs \<Rightarrow> check_glue lib node ns_rrs d)"

text \<open>The delete records of \<open>check_submission\<close>: five bytes, compared by memcmp.\<close>

definition empty_cds :: rdata where
  "empty_cds = [0, 0, 0, 0, 0]"

definition empty_cdnskey :: rdata where
  "empty_cdnskey = [0, 0, 3, 0, 0]"

definition is_delete_cds :: "rdata \<Rightarrow> bool" where
  "is_delete_cds cds = (length cds = 5 \<and> take 5 cds = empty_cds)"

definition is_delete_cdnskey :: "rdata \<Rightarrow> bool" where
  "is_delete_cdnskey cdnskey = (length cdnskey = 5 \<and> take 5 cdnskey = empty_cdnskey)"

text \<open>
  The inner loop over the DNSKEYs: is there one that \<open>knot_rdata_cmp\<close> finds equal to
  the CDNSKEY (same length, same bytes). A null DNSKEY set gives no match.
\<close>

definition dnskey_match :: "rdata list option \<Rightarrow> rdata \<Rightarrow> bool" where
  "dnskey_match dnskeys cdnskey =
     (case dnskeys of None \<Rightarrow> False | Some ks \<Rightarrow> list_ex (\<lambda>dnskey. dnskey = cdnskey) ks)"

text \<open>The loop over the CDNSKEYs; it returns \<open>delete_cdnskey\<close> and the context.\<close>

fun check_cdnskeys ::
  "rdata list option \<Rightarrow> dname \<Rightarrow> rdata list \<Rightarrow> bool \<Rightarrow> semchecks_data
     \<Rightarrow> bool \<times> semchecks_data"
where
  "check_cdnskeys dnskeys ow [] delete_cdnskey d = (delete_cdnskey, d)"
| "check_cdnskeys dnskeys ow (cdnskey # rest) delete_cdnskey d =
     (if is_delete_cdnskey cdnskey
      then check_cdnskeys dnskeys ow rest True d
      else if \<not> dnskey_match dnskeys cdnskey
      then check_cdnskeys dnskeys ow rest delete_cdnskey
             (emit d ow SEM_ERR_CDNSKEY_NO_DNSKEY None)
      else check_cdnskeys dnskeys ow rest delete_cdnskey d)"

text \<open>
  The inner loop over the CDNSKEYs for one CDS: \<open>Inr match\<close>, or \<open>Inl ret\<close> when
  \<open>dnssec_key_create_ds\<close> failed and the check returns \<open>ret\<close> at once.
  \<open>dnssec_binary_cmp\<close> is zero for equal sizes and equal bytes.
\<close>

fun cds_match ::
  "'k sem_lib \<Rightarrow> dname \<Rightarrow> rdata \<Rightarrow> byte \<Rightarrow> rdata list \<Rightarrow> knot_ret + bool"
where
  "cds_match lib apex_owner cds digest_type [] = Inr False"
| "cds_match lib apex_owner cds digest_type (cdnskey # rest) =
     (case dnssec_key_from_rdata lib apex_owner cdnskey of
        (ret, key) \<Rightarrow>
          if ret \<noteq> KNOT_EOK then cds_match lib apex_owner cds digest_type rest
          else
            case dnssec_key_create_ds lib key digest_type of
              (ret, cds_calc) \<Rightarrow>
                if ret \<noteq> KNOT_EOK then Inl ret
                else if cds = cds_calc then Inr True
                else cds_match lib apex_owner cds digest_type rest)"

text \<open>The loop over the CDSs; it returns the code, \<open>delete_cds\<close> and the context.\<close>

fun check_cdss ::
  "'k sem_lib \<Rightarrow> dname \<Rightarrow> rdata list \<Rightarrow> dname \<Rightarrow> rdata list \<Rightarrow> bool \<Rightarrow> semchecks_data
     \<Rightarrow> knot_ret \<times> bool \<times> semchecks_data"
where
  "check_cdss lib apex_owner cdnskeys ow [] delete_cds d = (KNOT_EOK, delete_cds, d)"
| "check_cdss lib apex_owner cdnskeys ow (cds # rest) delete_cds d =
     (let digest_type = knot_ds_digest_type cds in
      if is_delete_cds cds
      then check_cdss lib apex_owner cdnskeys ow rest True d
      else
        case cds_match lib apex_owner cds digest_type cdnskeys of
          Inl ret \<Rightarrow> (ret, delete_cds, d)
        | Inr match \<Rightarrow>
            check_cdss lib apex_owner cdnskeys ow rest delete_cds
              (if \<not> match then emit d ow SEM_ERR_CDS_NOT_MATCH None else d))"

definition check_submission ::
  "'k sem_lib \<Rightarrow> nat \<Rightarrow> semchecks_data \<Rightarrow> knot_ret \<times> semchecks_data"
where
  "check_submission lib node d =
     (let ow = owner (node_of (zone d) node);
          cdss = node_rdataset (node_of (zone d) node) KNOT_RRTYPE_CDS;
          cdnskeys = node_rdataset (node_of (zone d) node) KNOT_RRTYPE_CDNSKEY
      in case (cdss, cdnskeys) of
           (None, None) \<Rightarrow> (KNOT_EOK, d)
         | (None, Some _) \<Rightarrow> (KNOT_EOK, emit d ow SEM_ERR_CDS_NONE None)
         | (Some _, None) \<Rightarrow> (KNOT_EOK, emit d ow SEM_ERR_CDNSKEY_NONE None)
         | (Some cdss, Some cdnskeys) \<Rightarrow>
             let apex_node = node_of (zone d) (apex (zone d));
                 dnskeys = node_rdataset apex_node KNOT_RRTYPE_DNSKEY;
                 d1 = (if dnskeys = None then emit d ow SEM_ERR_DNSKEY_NONE None else d)
             in case check_cdnskeys dnskeys ow cdnskeys False d1 of
                  (delete_cdnskey, d2) \<Rightarrow>
                    case check_cdss lib (owner apex_node) cdnskeys ow cdss False d2 of
                      (ret, delete_cds, d3) \<Rightarrow>
                        if ret \<noteq> KNOT_EOK then (ret, d3)
                        else
                          let d4 = (if (delete_cds \<and>
                                         (\<not> delete_cdnskey \<or> length cdss > 1)) \<or>
                                        (delete_cdnskey \<and>
                                         (\<not> delete_cds \<or> length cdnskeys > 1))
                                    then emit d3 ow SEM_ERR_CDNSKEY_INVALID_DELETE None
                                    else d3);
                              d5 = (if length cdss < length cdnskeys
                                    then emit d4 ow SEM_ERR_CDNSKEY_NO_CDS None
                                    else d4)
                          in (KNOT_EOK, d5))"

text \<open>
  \<open>snprintf(info, sizeof(info), "(keytag %d)", keytag)\<close>: the key tag in decimal. The
  buffer of 100 bytes holds every such string whole.
\<close>

fun dec_digits :: "nat \<Rightarrow> string" where
  "dec_digits n =
     (if n < 10 then [''0123456789'' ! n]
      else dec_digits (n div 10) @ [''0123456789'' ! (n mod 10)])"

declare dec_digits.simps [simp del]

definition keytag_info :: "16 word \<Rightarrow> string" where
  "keytag_info keytag = ''(keytag '' @ dec_digits (unat keytag) @ '')''"

text \<open>
  \<open>digest_sizes[digest_type]\<close>: the table has five entries and the index is a byte
  of the record. For an index past the table the source reads what lies behind it in
  memory: the parameter \<open>beyond\<close>.
\<close>

definition digest_sizes :: "16 word list" where
  "digest_sizes = [0, 20, 32, 32, 48]"

definition digest_sizes_at :: "(nat \<Rightarrow> 16 word) \<Rightarrow> byte \<Rightarrow> 16 word" where
  "digest_sizes_at beyond digest_type =
     (if unat digest_type < length digest_sizes then digest_sizes ! unat digest_type
      else beyond (unat digest_type))"

text \<open>The body of the loop of \<open>check_ds\<close>, for one DS record.\<close>

definition check_ds_rr ::
  "'k sem_lib \<Rightarrow> (nat \<Rightarrow> 16 word) \<Rightarrow> dname \<Rightarrow> rdata \<Rightarrow> semchecks_data \<Rightarrow> semchecks_data"
where
  "check_ds_rr lib beyond ow ds d =
     (let keytag = knot_ds_key_tag ds;
          digest_type = knot_ds_digest_type ds;
          info = keytag_info keytag
      in if \<not> dnssec_algorithm_digest_support lib digest_type
         then emit d ow SEM_ERR_DS_RDATA_ALG (Some info)
         else
           let digest_size = knot_ds_digest_len ds
           in if digest_sizes_at beyond digest_type \<noteq> digest_size
              then emit d ow SEM_ERR_DS_RDATA_DIGLEN (Some info)
              else d)"

definition check_ds ::
  "'k sem_lib \<Rightarrow> (nat \<Rightarrow> 16 word) \<Rightarrow> nat \<Rightarrow> semchecks_data \<Rightarrow> knot_ret \<times> semchecks_data"
where
  "check_ds lib beyond node d =
     (case node_rdataset (node_of (zone d) node) KNOT_RRTYPE_DS of
        None \<Rightarrow> (KNOT_EOK, d)
      | Some dss \<Rightarrow>
          (KNOT_EOK,
           fold (check_ds_rr lib beyond (owner (node_of (zone d) node))) dss d))"

definition check_soa :: "nat \<Rightarrow> semchecks_data \<Rightarrow> knot_ret \<times> semchecks_data" where
  "check_soa node d =
     (if apex (zone d) \<noteq> node then (KNOT_EOK, d)
      else
        case node_rdataset (node_of (zone d) node) KNOT_RRTYPE_SOA of
          None \<Rightarrow>
            (KNOT_EOK,
             emit (set_error d) (owner (node_of (zone d) node)) SEM_ERR_SOA_NONE None)
        | Some soa_rrs \<Rightarrow> (KNOT_EOK, d))"

definition check_cname :: "nat \<Rightarrow> semchecks_data \<Rightarrow> knot_ret \<times> semchecks_data" where
  "check_cname node d =
     (let n = node_of (zone d) node in
      case node_rdataset n KNOT_RRTYPE_CNAME of
        None \<Rightarrow> (KNOT_EOK, d)
      | Some cname_rrs \<Rightarrow>
          let rrset_limit = (1::nat)
                + (if node_rrtype_exists (Some n) KNOT_RRTYPE_NSEC then 1 else 0)
                + (if node_rrtype_exists (Some n) KNOT_RRTYPE_RRSIG then 1 else 0);
              d1 = (if rrset_count n > rrset_limit
                    then emit (set_error d) (owner n) SEM_ERR_CNAME_EXTRA_RECORDS None
                    else d);
              d2 = (if length cname_rrs \<noteq> 1
                    then emit (set_error d1) (owner n) SEM_ERR_CNAME_MULTIPLE None
                    else d1)
          in (KNOT_EOK, d2))"

definition check_dname :: "nat \<Rightarrow> semchecks_data \<Rightarrow> knot_ret \<times> semchecks_data" where
  "check_dname node d =
     (let n = node_of (zone d) node in
      case node_rdataset n KNOT_RRTYPE_DNAME of
        None \<Rightarrow> (KNOT_EOK, d)
      | Some dname_rrs \<Rightarrow>
          let is_apex = (NODE_FLAGS_APEX \<in> flags n);
              d1 = (if \<not> is_apex \<and> node_rrtype_exists (Some n) KNOT_RRTYPE_NS
                    then emit (set_error d) (owner n) SEM_ERR_DNAME_EXTRA_NS None
                    else d);
              allowed_children = (if is_apex \<and> has_nsec3_node n then 1 else (0::nat));
              d2 = (if children n > allowed_children
                    then emit (set_error d1) (owner n) SEM_ERR_DNAME_CHILDREN None
                    else d1);
              d3 = (if length dname_rrs \<noteq> 1
                    then emit (set_error d2) (owner n) SEM_ERR_DNAME_MULTIPLE None
                    else d2)
          in (KNOT_EOK, d3))"

subsection \<open>The dispatcher and the entry point\<close>

type_synonym 'k check_function =
  "('k sem_lib \<Rightarrow> (nat \<Rightarrow> 16 word) \<Rightarrow> nat \<Rightarrow> semchecks_data \<Rightarrow> knot_ret \<times> semchecks_data)
   \<times> check_level_t"

definition CHECK_FUNCTIONS :: "'k check_function list" where
  "CHECK_FUNCTIONS =
     [ (\<lambda>lib beyond. check_soa,            MANDATORY),
       (\<lambda>lib beyond. check_cname,          MANDATORY),
       (\<lambda>lib beyond. check_dname,          MANDATORY),
       (\<lambda>lib beyond. check_delegation lib, MANDATORY),
       (check_ds,                          OPTIONAL),
       (\<lambda>lib beyond. check_submission lib, NSEC OR NSEC3) ]"

text \<open>
  The loop of \<open>do_checks_in_tree\<close> over the table: it goes on while \<open>ret\<close> is
  \<open>KNOT_EOK\<close> and calls the checks whose level meets the context's.
\<close>

fun run_checks ::
  "'k sem_lib \<Rightarrow> (nat \<Rightarrow> 16 word) \<Rightarrow> 'k check_function list \<Rightarrow> nat \<Rightarrow> semchecks_data
     \<Rightarrow> knot_ret \<times> semchecks_data"
where
  "run_checks lib beyond [] node d = (KNOT_EOK, d)"
| "run_checks lib beyond ((function, lvl) # rest) node d =
     (if lvl AND level d \<noteq> 0
      then
        case function lib beyond node d of
          (ret, d') \<Rightarrow>
            if ret = KNOT_EOK then run_checks lib beyond rest node d' else (ret, d')
      else run_checks lib beyond rest node d)"

definition do_checks_in_tree ::
  "'k sem_lib \<Rightarrow> (nat \<Rightarrow> 16 word) \<Rightarrow> nat \<Rightarrow> semchecks_data \<Rightarrow> knot_ret \<times> semchecks_data"
where
  "do_checks_in_tree lib beyond node d = run_checks lib beyond CHECK_FUNCTIONS node d"

text \<open>
  Modelled from the spec: \<open>zone_contents_apply\<close>, of the zone library, which is not
  among the sources. Section 4.1, step 3: walk the zone in order, call the function on
  each node, abort the walk on any return other than OK.
\<close>

fun zone_tree_apply ::
  "(nat \<Rightarrow> semchecks_data \<Rightarrow> knot_ret \<times> semchecks_data) \<Rightarrow> nat list \<Rightarrow> semchecks_data
     \<Rightarrow> knot_ret \<times> semchecks_data"
where
  "zone_tree_apply f [] d = (KNOT_EOK, d)"
| "zone_tree_apply f (node # rest) d =
     (case f node d of
        (ret, d') \<Rightarrow> if ret \<noteq> KNOT_EOK then (ret, d') else zone_tree_apply f rest d')"

definition zone_contents_apply ::
  "zone_contents \<Rightarrow> (nat \<Rightarrow> semchecks_data \<Rightarrow> knot_ret \<times> semchecks_data) \<Rightarrow> semchecks_data
     \<Rightarrow> knot_ret \<times> semchecks_data"
where
  "zone_contents_apply z f d = zone_tree_apply f [0..<length (nodes z)] d"

definition DNSSEC_NSEC3_ALGORITHM_SHA1 :: byte where
  "DNSSEC_NSEC3_ALGORITHM_SHA1 = 1"

text \<open>
  \<open>check_nsec3param\<close> reads the first record of the NSEC3PARAM set
  (\<open>nsec3param->rdata\<close>) and calls the handler's callback itself.
\<close>

definition check_nsec3param :: "rdata list \<Rightarrow> semchecks_data \<Rightarrow> semchecks_data" where
  "check_nsec3param nsec3param d =
     (let rdata = (case nsec3param of [] \<Rightarrow> [] | r # _ \<Rightarrow> r);
          apex_owner = owner (node_of (zone d) (apex (zone d)));
          d1 = d\<lparr>level := level d OR NSEC3\<rparr>;
          d2 = (if knot_nsec3param_flags rdata AND NOT 1 \<noteq> 0
                then emit d1 apex_owner SEM_ERR_NSEC3PARAM_RDATA_FLAGS None
                else d1);
          d3 = (if knot_nsec3param_alg rdata \<noteq> DNSSEC_NSEC3_ALGORITHM_SHA1
                then emit d2 apex_owner SEM_ERR_NSEC3PARAM_RDATA_ALG None
                else d2)
      in d3)"

definition err_dnssec2sem :: "knot_ret \<Rightarrow> sem_error" where
  "err_dnssec2sem err =
     (case err of
        KNOT_DNSSEC_ENOSIG \<Rightarrow> SEM_ERR_RRSIG_UNVERIFIABLE
      | KNOT_DNSSEC_ENSEC_BITMAP \<Rightarrow> SEM_ERR_NSEC_RDATA_BITMAP
      | KNOT_DNSSEC_ENSEC_CHAIN \<Rightarrow> SEM_ERR_NSEC_RDATA_CHAIN
      | KNOT_DNSSEC_ENSEC3_OPTOUT \<Rightarrow> SEM_ERR_NSEC3_INSECURE_DELEGATION_OPT
      | _ \<Rightarrow> SEM_ERR_UNKNOWN)"

definition verify_dnssec :: "'k sem_lib \<Rightarrow> semchecks_data \<Rightarrow> knot_ret \<times> semchecks_data" where
  "verify_dnssec lib d =
     (case knot_dnssec_validate_zone lib (zone d) (time d) of
        (ret, Some (hint_node, hint_rrtype)) \<Rightarrow>
          (KNOT_EOK,
           emit d hint_node (err_dnssec2sem ret)
             (Some (knot_rrtype_to_string lib hint_rrtype)))
      | (ret, None) \<Rightarrow>
          if ret = KNOT_INVALID_PUBLIC_KEY
          then (KNOT_EOK,
                emit d (owner (node_of (zone d) (apex (zone d)))) SEM_ERR_DNSKEY_INVALID None)
          else (ret, d))"

text \<open>
  \<open>semcheck_optional_t\<close>; its header is not among the sources. The entry point tells
  \<open>SEMCHECK_MANDATORY_ONLY\<close>, \<open>SEMCHECK_DNSSEC\<close> and \<open>SEMCHECK_AUTO_DNSSEC\<close> from
  any other value, which the spec calls FULL.
\<close>

datatype semcheck_optional_t =
    SEMCHECK_MANDATORY_ONLY
  | SEMCHECK_FULL
  | SEMCHECK_AUTO_DNSSEC
  | SEMCHECK_DNSSEC

text \<open>
  The context \<open>sem_checks_process\<close> builds before the walk: the level mask from the
  option, and the NSEC3PARAM checks when DNSSEC checks are on and the apex has the set.
\<close>

definition with_dnssec :: "zone_contents \<Rightarrow> semcheck_optional_t \<Rightarrow> bool" where
  "with_dnssec z optional =
     (optional = SEMCHECK_DNSSEC \<or> (optional = SEMCHECK_AUTO_DNSSEC \<and> dnssec z))"

definition sem_checks_init ::
  "zone_contents \<Rightarrow> semcheck_optional_t \<Rightarrow> sem_handler \<Rightarrow> int \<Rightarrow> semchecks_data"
where
  "sem_checks_init z optional h time_arg =
     (let d0 = \<lparr>zone = z, handler = h, next_nsec = apex z, level = MANDATORY,
               time = time_arg, calls = []\<rparr>
      in if optional \<noteq> SEMCHECK_MANDATORY_ONLY
         then
           let d = d0\<lparr>level := level d0 OR OPTIONAL\<rparr>
           in if with_dnssec z optional
              then
                case node_rdataset (node_of z (apex z)) KNOT_RRTYPE_NSEC3PARAM of
                  Some nsec3param \<Rightarrow>
                    check_nsec3param nsec3param (d\<lparr>level := level d OR NSEC3\<rparr>)
                | None \<Rightarrow> d\<lparr>level := level d OR NSEC\<rparr>
              else d
         else d0)"

text \<open>
  \<open>sem_checks_process\<close>. A null zone or handler is \<open>None\<close>. The result is the
  returned code, the handler as the call leaves it, and the callback invocations made.
\<close>

definition sem_checks_process ::
  "'k sem_lib \<Rightarrow> (nat \<Rightarrow> 16 word) \<Rightarrow> zone_contents option \<Rightarrow> semcheck_optional_t
     \<Rightarrow> sem_handler option \<Rightarrow> int \<Rightarrow> knot_ret \<times> sem_handler option \<times> finding list"
where
  "sem_checks_process lib beyond zone_arg optional handler_arg time_arg =
     (case handler_arg of
        None \<Rightarrow> (KNOT_EINVAL, None, [])
      | Some h \<Rightarrow>
          case zone_arg of
            None \<Rightarrow> (KNOT_EEMPTYZONE, Some h, [])
          | Some z \<Rightarrow>
              case zone_contents_apply z (do_checks_in_tree lib beyond)
                     (sem_checks_init z optional h time_arg) of
                (ret, d2) \<Rightarrow>
                  if ret \<noteq> KNOT_EOK then (ret, Some (handler d2), calls d2)
                  else if fatal_error (handler d2)
                  then (KNOT_ESEMCHECK, Some (handler d2), calls d2)
                  else if with_dnssec z optional
                  then
                    case verify_dnssec lib d2 of
                      (ret, d3) \<Rightarrow> (ret, Some (handler d3), calls d3)
                  else (ret, Some (handler d2), calls d2))"

section \<open>DNS-over-QUIC client (utils/common/quic.c)\<close>

subsection \<open>Data model\<close>

text \<open>
  The header utils/common/quic.h is not among the sources; the context is modelled from
  the fields the code reads and writes and from the spec's data model: the connection
  state, the stream (its id, -1 when not open; the bytes sent and not yet acknowledged,
  an unsigned 64-bit count; the inbound buffer; the completed messages and the iterator
  over them), the last close error, the ECN of the packet info, the time of the last
  activity and the TLS context (null or its wait and socket). The array \<open>out_storage\<close>
  and its length \<open>out_storage_len\<close> are one list.
\<close>

datatype quic_state_t = OPENING | CONNECTED | CLOSED

datatype close_error_type =
    NGTCP2_CONNECTION_CLOSE_ERROR_CODE_TYPE_TRANSPORT
  | NGTCP2_CONNECTION_CLOSE_ERROR_CODE_TYPE_APPLICATION

text \<open>
  The pointer \<open>last_err.reason\<close>. The close error does not own the reason: the field
  holds the pointer it was given. The code gives it the null pointer (\<open>None\<close>) and, in
  \<open>stream_open_cb\<close>, the address of that callback's array \<open>message[]\<close>, which is
  declared in the block of the \<open>if\<close> statement and so lives until that block is left.
  What a pointer refers to is an array that is live and holds some bytes, or an array
  whose lifetime has ended, through which nothing can be read.
\<close>

datatype array_ref = LIVE "byte list" | ENDED

type_synonym byte_ptr = "array_ref option"

record ngtcp2_connection_close_error =
  err_type :: close_error_type
  error_code :: "64 word"
  reason :: byte_ptr
  reasonlen :: nat

record quic_stream =
  id' :: int
  sent :: "64 word"
  in_storage :: "byte list"
  out_storage :: "byte list list option"
  out_storage_it :: nat
  out_storage_total :: nat

record tls_ctx =
  wait :: int
  sockfd :: int

record quic_ctx =
  state :: quic_state_t
  stream :: quic_stream
  last_err :: ngtcp2_connection_close_error
  pi_ecn :: "32 word"
  timestamp :: "64 word"
  tls :: "tls_ctx option"

definition out_storage_len :: "quic_stream \<Rightarrow> nat" where
  "out_storage_len s = (case out_storage s of None \<Rightarrow> 0 | Some msgs \<Rightarrow> length msgs)"

text \<open>
  What a call either does: it returns, it aborts (it dereferences a null pointer, or an
  assertion fails), or the environment's script ends before it returns.
\<close>

datatype 'a outcome = Return 'a | Crash | Pending

text \<open>
  Constants of the ngtcp2 library (ngtcp2.h) and of RFC 9250, section 4.3.
\<close>

definition NGTCP2_ERR_STREAM_ID_BLOCKED :: int where "NGTCP2_ERR_STREAM_ID_BLOCKED = - 208"
definition NGTCP2_ERR_STREAM_DATA_BLOCKED :: int where "NGTCP2_ERR_STREAM_DATA_BLOCKED = - 210"
definition NGTCP2_ERR_STREAM_SHUT_WR :: int where "NGTCP2_ERR_STREAM_SHUT_WR = - 221"
definition NGTCP2_ERR_WRITE_MORE :: int where "NGTCP2_ERR_WRITE_MORE = - 240"
definition NGTCP2_ERR_DROP_CONN :: int where "NGTCP2_ERR_DROP_CONN = - 242"
definition NGTCP2_ERR_FATAL :: int where "NGTCP2_ERR_FATAL = - 500"
definition NGTCP2_ERR_NOMEM :: int where "NGTCP2_ERR_NOMEM = - 501"
definition NGTCP2_ERR_CALLBACK_FAILURE :: int where "NGTCP2_ERR_CALLBACK_FAILURE = - 502"
definition NGTCP2_CRYPTO_ERROR :: "64 word" where "NGTCP2_CRYPTO_ERROR = 256"
definition NGTCP2_SECONDS :: "64 word" where "NGTCP2_SECONDS = 1000000000"
definition DOQ_NO_ERROR :: "64 word" where "DOQ_NO_ERROR = 0"
definition DOQ_PROTOCOL_ERROR :: "64 word" where "DOQ_PROTOCOL_ERROR = 2"

definition ngtcp2_err_is_fatal :: "int \<Rightarrow> bool" where
  "ngtcp2_err_is_fatal liberr = (liberr < NGTCP2_ERR_FATAL)"

text \<open>
  What the code takes from libraries that are not among the sources:
  \<open>tcp_inbuf_update\<close> of libknot (from the inbound buffer, the new bytes, the completed
  messages and their total, to a code and the four after the call) and ngtcp2's
  \<open>ngtcp2_err_infer_quic_transport_error_code\<close>.
\<close>

record quic_ext =
  tcp_inbuf_update ::
    "byte list \<Rightarrow> byte list \<Rightarrow> byte list list option \<Rightarrow> nat
       \<Rightarrow> knot_ret \<times> byte list \<times> byte list list option \<times> nat"
  ngtcp2_err_infer_quic_transport_error_code :: "int \<Rightarrow> 64 word"

subsection \<open>Close errors\<close>

definition set_application_error ::
  "quic_ctx \<Rightarrow> 64 word \<Rightarrow> byte_ptr \<Rightarrow> nat \<Rightarrow> quic_ctx"
where
  "set_application_error ctx err rsn rsnlen =
     ctx\<lparr>last_err :=
       \<lparr>err_type = NGTCP2_CONNECTION_CLOSE_ERROR_CODE_TYPE_APPLICATION,
        error_code = err, reason = rsn, reasonlen = rsnlen\<rparr>\<rparr>"

definition set_transport_error ::
  "quic_ctx \<Rightarrow> 64 word \<Rightarrow> byte_ptr \<Rightarrow> nat \<Rightarrow> quic_ctx"
where
  "set_transport_error ctx err rsn rsnlen =
     ctx\<lparr>last_err :=
       \<lparr>err_type = NGTCP2_CONNECTION_CLOSE_ERROR_CODE_TYPE_TRANSPORT,
        error_code = err, reason = rsn, reasonlen = rsnlen\<rparr>\<rparr>"

subsection \<open>Callbacks\<close>

text \<open>
  Each callback takes the context and returns its code and the context after it.
  \<open>recv_stream_data_cb\<close> reads the clock (\<open>quic_timestamp()\<close>) after a successful
  append; the reading is the parameter \<open>now\<close>.
\<close>

definition recv_stream_data_cb ::
  "quic_ext \<Rightarrow> 64 word \<Rightarrow> int \<Rightarrow> byte list \<Rightarrow> quic_ctx \<Rightarrow> int \<times> quic_ctx"
where
  "recv_stream_data_cb ext now stream_id data ctx =
     (if stream_id \<noteq> id' (stream ctx) then (0, ctx)
      else
        case tcp_inbuf_update ext (in_storage (stream ctx)) data (out_storage (stream ctx))
               (out_storage_total (stream ctx)) of
          (ret, in', out', total') \<Rightarrow>
            let ctx1 = ctx\<lparr>stream := (stream ctx)\<lparr>in_storage := in', out_storage := out',
                                                    out_storage_total := total'\<rparr>\<rparr>
            in if ret \<noteq> KNOT_EOK then (NGTCP2_ERR_CALLBACK_FAILURE, ctx1)
               else (0, ctx1\<lparr>timestamp := now,
                             stream := (stream ctx1)\<lparr>out_storage_it := 0\<rparr>\<rparr>))"

text \<open>The reason of the close error of \<open>stream_open_cb\<close>: the bytes of the string.\<close>

definition server_cant_open_streams :: "byte list" where
  "server_cant_open_streams = map (\<lambda>c. of_nat (of_char c)) ''Server can't open streams.''"

text \<open>
  Leaving the block that declares an array ends the array's lifetime: a pointer to it
  that the context holds refers to an ended array from then on.
\<close>

definition end_lifetime :: "byte list \<Rightarrow> quic_ctx \<Rightarrow> quic_ctx" where
  "end_lifetime arr ctx =
     (if reason (last_err ctx) = Some (LIVE arr)
      then ctx\<lparr>last_err := (last_err ctx)\<lparr>reason := Some ENDED\<rparr>\<rparr>
      else ctx)"

text \<open>
  \<open>stream_open_cb\<close>. \<open>stream_id % 4\<close> is C's remainder, which truncates: \<open>smod\<close>.
  The array \<open>message[]\<close> holds the string and its terminating zero;
  \<open>set_application_error\<close> is given its address and \<open>sizeof(message) - 1\<close>, and the
  \<open>return\<close> leaves the block that declares it.
\<close>

definition stream_open_cb :: "int \<Rightarrow> quic_ctx \<Rightarrow> int \<times> quic_ctx" where
  "stream_open_cb stream_id ctx =
     (if stream_id smod 4 \<noteq> 0
      then
        let message = server_cant_open_streams @ [0];
            ctx1 = set_application_error ctx DOQ_PROTOCOL_ERROR (Some (LIVE message))
                     (length message - 1)
        in (NGTCP2_ERR_CALLBACK_FAILURE, end_lifetime message ctx1)
      else (0, ctx))"

definition acked_stream_data_offset_cb :: "int \<Rightarrow> 64 word \<Rightarrow> quic_ctx \<Rightarrow> int \<times> quic_ctx" where
  "acked_stream_data_offset_cb stream_id datalen ctx =
     (if id' (stream ctx) = stream_id
      then (0, ctx\<lparr>stream := (stream ctx)\<lparr>sent := sent (stream ctx) - datalen\<rparr>\<rparr>)
      else (0, ctx))"

definition stream_close_cb :: "int \<Rightarrow> quic_ctx \<Rightarrow> int \<times> quic_ctx" where
  "stream_close_cb stream_id ctx =
     (if stream_id = id' (stream ctx)
      then (0, ctx\<lparr>stream := (stream ctx)\<lparr>id' := - 1\<rparr>\<rparr>)
      else (0, ctx))"

text \<open>
  \<open>quic_open_bidi_stream\<close>: \<open>ngtcp2_conn_open_bidi_stream\<close> returns a code and, when
  the code is 0, has stored the new stream's id; both are parameters. The
  \<open>assert(0)\<close> of the default case, like the one of \<open>quic_send_data\<close>, marks a code
  that the library is not expected to return; it is compiled out here and the case goes
  on as the code after it says.
\<close>

definition quic_open_bidi_stream :: "int \<Rightarrow> int \<Rightarrow> quic_ctx \<Rightarrow> knot_ret \<times> quic_ctx" where
  "quic_open_bidi_stream lib_ret new_id ctx =
     (if id' (stream ctx) \<noteq> - 1 then (KNOT_EOK, ctx)
      else
        let ctx1 = (if lib_ret = 0 then ctx\<lparr>stream := (stream ctx)\<lparr>id' := new_id\<rparr>\<rparr> else ctx)
        in if lib_ret = 0 then (KNOT_EOK, ctx1)
           else if lib_ret = NGTCP2_ERR_STREAM_ID_BLOCKED then (KNOT_EBUSY, ctx1)
           else if lib_ret = NGTCP2_ERR_NOMEM then (KNOT_ENOMEM, ctx1)
           else (KNOT_ERROR, ctx1))"

definition extend_max_bidi_streams_cb ::
  "64 word \<Rightarrow> int \<Rightarrow> int \<Rightarrow> quic_ctx \<Rightarrow> int \<times> quic_ctx"
where
  "extend_max_bidi_streams_cb max_streams lib_ret new_id ctx =
     (if max_streams > 0
      then
        case quic_open_bidi_stream lib_ret new_id ctx of
          (ret, ctx1) \<Rightarrow>
            if ret \<noteq> KNOT_EOK then (NGTCP2_ERR_CALLBACK_FAILURE, ctx1) else (0, ctx1)
      else (0, ctx))"

definition handshake_confirmed_cb :: "quic_ctx \<Rightarrow> int \<times> quic_ctx" where
  "handshake_confirmed_cb ctx = (0, ctx\<lparr>state := CONNECTED\<rparr>)"

text \<open>
  The TLS hooks that touch the context. \<open>secret_func\<close>: whether a receive secret and a
  send secret were delivered, what installing each returned, whether the level is the
  application level, and what opening the stream would return.
\<close>

record secret_args =
  rx_secret :: bool
  rx_install :: int
  application_level :: bool
  open_ret :: int
  open_id :: int
  tx_secret :: bool
  tx_install :: int

definition secret_func :: "secret_args \<Rightarrow> quic_ctx \<Rightarrow> int \<times> quic_ctx" where
  "secret_func a ctx =
     (if rx_secret a \<and> rx_install a \<noteq> 0 then (- 1, ctx)
      else
        let ctx1 = (if rx_secret a \<and> application_level a
                    then snd (quic_open_bidi_stream (open_ret a) (open_id a) ctx)
                    else ctx)
        in if tx_secret a \<and> tx_install a \<noteq> 0 then (- 1, ctx1) else (0, ctx1))"

definition alert_read_func :: "64 word \<Rightarrow> quic_ctx \<Rightarrow> int \<times> quic_ctx" where
  "alert_read_func alert ctx = (0, set_transport_error ctx (NGTCP2_CRYPTO_ERROR OR alert) None 0)"

text \<open>
  What the library may call while it reads or writes a packet: the callbacks above with
  their arguments, or a callback that leaves the context alone (\<open>rand_cb\<close>,
  \<open>get_new_connection_id_cb\<close>, \<open>read_func\<close>, the transport parameter hooks) with the
  code it returns.
\<close>

datatype quic_event =
    RECV_STREAM_DATA int "byte list" "64 word"
  | ACKED_STREAM_DATA_OFFSET int "64 word"
  | STREAM_OPEN int
  | STREAM_CLOSE int
  | EXTEND_MAX_BIDI_STREAMS "64 word" int int
  | HANDSHAKE_CONFIRMED
  | SECRET secret_args
  | ALERT_READ "64 word"
  | OTHER_CALLBACK int

fun quic_callback :: "quic_ext \<Rightarrow> quic_event \<Rightarrow> quic_ctx \<Rightarrow> int \<times> quic_ctx" where
  "quic_callback ext (RECV_STREAM_DATA sid data now) ctx = recv_stream_data_cb ext now sid data ctx"
| "quic_callback ext (ACKED_STREAM_DATA_OFFSET sid datalen) ctx =
     acked_stream_data_offset_cb sid datalen ctx"
| "quic_callback ext (STREAM_OPEN sid) ctx = stream_open_cb sid ctx"
| "quic_callback ext (STREAM_CLOSE sid) ctx = stream_close_cb sid ctx"
| "quic_callback ext (EXTEND_MAX_BIDI_STREAMS n lib_ret new_id) ctx =
     extend_max_bidi_streams_cb n lib_ret new_id ctx"
| "quic_callback ext HANDSHAKE_CONFIRMED ctx = handshake_confirmed_cb ctx"
| "quic_callback ext (SECRET a) ctx = secret_func a ctx"
| "quic_callback ext (ALERT_READ alert) ctx = alert_read_func alert ctx"
| "quic_callback ext (OTHER_CALLBACK ret) ctx = (ret, ctx)"

text \<open>
  The library's side of \<open>ngtcp2_conn_read_pkt\<close> and \<open>ngtcp2_conn_writev_stream\<close>,
  as ngtcp2 documents it: the callbacks run in order; when one fails, the call stops and
  returns \<open>NGTCP2_ERR_CALLBACK_FAILURE\<close>; otherwise it returns its own result.
\<close>

fun run_callbacks :: "quic_ext \<Rightarrow> quic_event list \<Rightarrow> quic_ctx \<Rightarrow> int \<times> quic_ctx" where
  "run_callbacks ext [] ctx = (0, ctx)"
| "run_callbacks ext (e # es) ctx =
     (case quic_callback ext e ctx of
        (ret, ctx1) \<Rightarrow> if ret \<noteq> 0 then (ret, ctx1) else run_callbacks ext es ctx1)"

definition ngtcp2_call :: "quic_ext \<Rightarrow> quic_event list \<Rightarrow> int \<Rightarrow> quic_ctx \<Rightarrow> int \<times> quic_ctx" where
  "ngtcp2_call ext events lib_ret ctx =
     (case run_callbacks ext events ctx of
        (ret, ctx1) \<Rightarrow> if ret \<noteq> 0 then (NGTCP2_ERR_CALLBACK_FAILURE, ctx1) else (lib_ret, ctx1))"

subsection \<open>System calls\<close>

text \<open>
  A failed system call leaves a nonzero \<open>errno\<close>, which \<open>knot_map_errno()\<close> of libknot
  (not among the sources) maps to an error code: \<open>ENOENT\<close> and \<open>ENOTSUP\<close> to the
  codes of their names.
\<close>

datatype errno_t = ENOENT | ENOTSUP | ERRNO nat

definition knot_map_errno :: "errno_t \<Rightarrow> knot_ret" where
  "knot_map_errno e =
     (case e of ENOENT \<Rightarrow> KNOT_ENOENT | ENOTSUP \<Rightarrow> KNOT_ENOTSUP | ERRNO n \<Rightarrow> KNOT_ERRNO n)"

datatype family = AF_INET | AF_INET6 | AF_OTHER int

datatype cmsg_level_t = IPPROTO_IP | IPPROTO_IPV6 | LEVEL_OTHER int

datatype cmsg_type_t = IP_TOS | IPV6_TCLASS | TYPE_OTHER int

record cmsghdr =
  cmsg_level :: cmsg_level_t
  cmsg_type :: cmsg_type_t
  cmsg_len :: nat
  cmsg_data :: byte

text \<open>The loops of \<open>quic_get_ecn\<close> over the control messages.\<close>

fun first_cmsg :: "cmsg_level_t \<Rightarrow> cmsg_type_t \<Rightarrow> cmsghdr list \<Rightarrow> byte option" where
  "first_cmsg lvl ty [] = None"
| "first_cmsg lvl ty (cmsg # rest) =
     (if cmsg_level cmsg = lvl \<and> cmsg_type cmsg = ty \<and> cmsg_len cmsg \<noteq> 0
      then Some (cmsg_data cmsg)
      else first_cmsg lvl ty rest)"

text \<open>\<open>quic_get_ecn\<close> returns the ECN and leaves \<open>errno\<close>: \<open>None\<close> is \<open>errno = 0\<close>.\<close>

definition quic_get_ecn :: "cmsghdr list \<Rightarrow> family \<Rightarrow> 32 word \<times> errno_t option" where
  "quic_get_ecn msg fam =
     (case fam of
        AF_INET \<Rightarrow>
          (case first_cmsg IPPROTO_IP IP_TOS msg of
             Some b \<Rightarrow> (ucast b, None)
           | None \<Rightarrow> (0, Some ENOENT))
      | AF_INET6 \<Rightarrow>
          (case first_cmsg IPPROTO_IPV6 IPV6_TCLASS msg of
             Some b \<Rightarrow> (ucast b, None)
           | None \<Rightarrow> (0, Some ENOENT))
      | AF_OTHER n \<Rightarrow> (0, Some ENOTSUP))"

text \<open>\<open>quic_set_enc\<close>; the parameter is what \<open>setsockopt\<close> does: \<open>None\<close> when it succeeds.\<close>

definition quic_set_enc :: "errno_t option \<Rightarrow> family \<Rightarrow> knot_ret" where
  "quic_set_enc setsockopt_errno fam =
     (case fam of
        AF_OTHER n \<Rightarrow> KNOT_ENOTSUP
      | _ \<Rightarrow> (case setsockopt_errno of Some e \<Rightarrow> knot_map_errno e | None \<Rightarrow> KNOT_EOK))"

subsection \<open>Writing and reading packets\<close>

datatype write_stream_flag = NGTCP2_WRITE_STREAM_FLAG_NONE | NGTCP2_WRITE_STREAM_FLAG_FIN

text \<open>
  A call of \<open>ngtcp2_conn_writev_stream\<close> as the client made it: the flags, the stream
  id and the data vector (the empty list is the null vector of length 0).
\<close>

record writev_call =
  wc_flags :: write_stream_flag
  wc_stream :: int
  wc_datav :: "byte list list"

text \<open>
  What the environment does in one turn of the loop of \<open>quic_send_data\<close>: the callbacks
  during \<open>ngtcp2_conn_writev_stream\<close> and its result, then \<open>setsockopt\<close> and
  \<open>sendmsg\<close>.
\<close>

record writev_step =
  ws_events :: "quic_event list"
  ws_nwrite :: int
  ws_setsockopt :: "errno_t option"
  ws_sendmsg_ok :: bool

text \<open>
  The head of the loop of \<open>quic_send_data\<close>: with a data vector the call carries the
  FIN flag and the current stream, without one no flag and the stream -1.
\<close>

definition stream_write_call :: "byte list list \<Rightarrow> quic_ctx \<Rightarrow> writev_call" where
  "stream_write_call datav ctx =
     (if length datav \<noteq> 0
      then \<lparr>wc_flags = NGTCP2_WRITE_STREAM_FLAG_FIN, wc_stream = id' (stream ctx),
            wc_datav = datav\<rparr>
      else \<lparr>wc_flags = NGTCP2_WRITE_STREAM_FLAG_NONE, wc_stream = - 1, wc_datav = datav\<rparr>)"

text \<open>
  \<open>quic_send_data\<close>. The loop \<open>while(1)\<close> takes one step of the script per turn; a
  script that ends before the loop returns leaves the call pending. The third component
  of the result lists the calls of \<open>ngtcp2_conn_writev_stream\<close> made.
\<close>

fun quic_send_data ::
  "quic_ext \<Rightarrow> family \<Rightarrow> writev_step list \<Rightarrow> byte list list \<Rightarrow> quic_ctx \<Rightarrow> writev_call list
     \<Rightarrow> (knot_ret \<times> quic_ctx \<times> writev_call list) outcome"
where
  "quic_send_data ext fam [] datav ctx tr = Pending"
| "quic_send_data ext fam (s # steps) datav ctx tr =
     (let tr1 = tr @ [stream_write_call datav ctx]
      in case ngtcp2_call ext (ws_events s) (ws_nwrite s) ctx of
           (nwrite, ctx1) \<Rightarrow>
             if nwrite < 0 then
               if nwrite = NGTCP2_ERR_STREAM_DATA_BLOCKED then Return (KNOT_EOK, ctx1, tr1)
               else if nwrite = NGTCP2_ERR_NOMEM then Return (KNOT_ENOMEM, ctx1, tr1)
               else if nwrite = NGTCP2_ERR_WRITE_MORE
               then quic_send_data ext fam steps datav ctx1 tr1
               else
                 let ctx2 = (if nwrite = NGTCP2_ERR_STREAM_SHUT_WR
                             then ctx1\<lparr>stream := (stream ctx1)\<lparr>id' := - 1\<rparr>\<rparr>
                             else ctx1)
                 in Return (KNOT_NET_ESEND,
                            set_transport_error ctx2
                              (ngtcp2_err_infer_quic_transport_error_code ext nwrite) None 0,
                            tr1)
             else if nwrite = 0 then Return (KNOT_EOK, ctx1, tr1)
             else
               let ret = quic_set_enc (ws_setsockopt s) fam
               in if ret \<noteq> KNOT_EOK then Return (ret, ctx1, tr1)
                  else if \<not> ws_sendmsg_ok s then Return (KNOT_NET_ESEND, ctx1, tr1)
                  else quic_send_data ext fam steps [] ctx1 tr1)"

text \<open>
  What the environment does in one call of \<open>quic_recv\<close>: the result of \<open>recvmsg\<close>
  (and, when it is not positive, the code \<open>knot_map_errno()\<close> makes of the \<open>errno\<close>
  it finds), the sender's family and the control messages, then the callbacks during
  \<open>ngtcp2_conn_read_pkt\<close> and its result.
\<close>

record recv_step =
  r_nwrite :: int
  r_mapped :: knot_ret
  r_family :: family
  r_cmsgs :: "cmsghdr list"
  r_events :: "quic_event list"
  r_ret :: int

definition quic_recv :: "quic_ext \<Rightarrow> recv_step \<Rightarrow> quic_ctx \<Rightarrow> knot_ret \<times> quic_ctx" where
  "quic_recv ext r ctx =
     (let nwrite = r_nwrite r in
      if nwrite \<le> 0 then (r_mapped r, ctx)
      else
        case quic_get_ecn (r_cmsgs r) (r_family r) of
          (ecn, errno) \<Rightarrow>
            let ctx1 = ctx\<lparr>pi_ecn := ecn\<rparr>
            in if ecn = 0 \<and> errno \<noteq> None then (knot_map_errno (the errno), ctx1)
               else
                 case ngtcp2_call ext (r_events r) (r_ret r) ctx1 of
                   (ret, ctx2) \<Rightarrow>
                     if ret \<noteq> 0 then
                       if nwrite = NGTCP2_ERR_DROP_CONN
                       then (KNOT_NET_ERECV, ctx2\<lparr>state := CLOSED\<rparr>)
                       else if ngtcp2_err_is_fatal nwrite
                       then (KNOT_NET_ERECV, set_transport_error ctx2 (of_int nwrite) None 0)
                       else (KNOT_NET_ERECV, ctx2)
                     else (KNOT_EOK, ctx2))"

subsection \<open>The public operations\<close>

text \<open>
  An \<open>int\<close> that is a code or a length: \<open>quic_respcpy\<close> returns the length of the
  message it copied, 0 when there is none, or \<open>KNOT_ENOMEM\<close>.
\<close>

datatype ret_or_len = RET knot_ret | LEN nat

definition ret_is_zero :: "ret_or_len \<Rightarrow> bool" where
  "ret_is_zero r = (r = RET KNOT_EOK \<or> r = LEN 0)"

text \<open>
  \<open>quic_respcpy\<close>. The buffer is the list of the \<open>buf_len\<close> bytes of the caller's
  buffer; \<open>memcpy\<close> overwrites its first bytes. The context and the buffer of the
  model are never null, so the assertion \<open>assert(ctx && buf && buf_len > 0)\<close> fails
  exactly for an empty buffer, and the call aborts there.
\<close>

definition quic_respcpy ::
  "quic_ctx \<Rightarrow> byte list \<Rightarrow> (ret_or_len \<times> quic_ctx \<times> byte list) outcome"
where
  "quic_respcpy ctx buf =
     (if buf = [] then Crash
      else
        case out_storage (stream ctx) of
          None \<Rightarrow> Return (LEN 0, ctx, buf)
        | Some msgs \<Rightarrow>
            if out_storage_it (stream ctx) < out_storage_len (stream ctx)
            then
              let msg = msgs ! out_storage_it (stream ctx);
                  len = length msg
              in if length buf < len then Return (RET KNOT_ENOMEM, ctx, buf)
                 else
                   let it = out_storage_it (stream ctx) + 1;
                       s1 = (stream ctx)\<lparr>out_storage_it := it\<rparr>;
                       s2 = (if it = out_storage_len s1 then s1\<lparr>out_storage := None\<rparr> else s1)
                   in Return (LEN len, ctx\<lparr>stream := s2\<rparr>, msg @ drop len buf)
            else Return (LEN 0, ctx, buf))"

text \<open>\<open>quic_timeout(ts, wait)\<close>, in unsigned 64-bit arithmetic; \<open>now\<close> is the clock.\<close>

definition quic_timeout :: "64 word \<Rightarrow> int \<Rightarrow> 64 word \<Rightarrow> bool" where
  "quic_timeout ts w now = (ts + NGTCP2_SECONDS * of_int w \<le> now)"

datatype poll_result = POLL_FAILED errno_t | POLL_TIMEOUT | POLL_READY

text \<open>
  What the environment does in one turn of a driver loop: the clock when the loop tests
  the deadline, the steps of \<open>quic_send_data\<close>, the result of \<open>poll\<close> and the step
  of \<open>quic_recv\<close>.
\<close>

record round =
  rd_now :: "64 word"
  rd_writes :: "writev_step list"
  rd_poll :: poll_result
  rd_recv :: recv_step

text \<open>
  The loop of \<open>quic_send_dns_query\<close>: \<open>while (ctx->stream.sent)\<close>. It dereferences
  \<open>ctx->tls\<close> unchecked.
\<close>

fun send_query_loop ::
  "quic_ext \<Rightarrow> family \<Rightarrow> round list \<Rightarrow> byte list list \<Rightarrow> quic_ctx \<Rightarrow> writev_call list
     \<Rightarrow> (knot_ret \<times> quic_ctx \<times> writev_call list) outcome"
where
  "send_query_loop ext fam [] datav ctx tr =
     (if sent (stream ctx) = 0 then Return (KNOT_EOK, ctx, tr) else Pending)"
| "send_query_loop ext fam (r # rounds) datav ctx tr =
     (if sent (stream ctx) = 0 then Return (KNOT_EOK, ctx, tr)
      else
        case tls ctx of
          None \<Rightarrow> Crash
        | Some t \<Rightarrow>
            if quic_timeout (timestamp ctx) (wait t) (rd_now r)
            then Return (KNOT_NET_ETIMEOUT, ctx, tr)
            else
              case quic_send_data ext fam (rd_writes r) datav ctx tr of
                Pending \<Rightarrow> Pending
              | Crash \<Rightarrow> Crash
              | Return (ret, ctx1, tr1) \<Rightarrow>
                  if ret \<noteq> KNOT_EOK then Return (ret, ctx1, tr1)
                  else
                    case rd_poll r of
                      POLL_FAILED e \<Rightarrow> Return (knot_map_errno e, ctx1, tr1)
                    | POLL_TIMEOUT \<Rightarrow> send_query_loop ext fam rounds [] ctx1 tr1
                    | POLL_READY \<Rightarrow>
                        case quic_recv ext (rd_recv r) ctx1 of
                          (ret, ctx2) \<Rightarrow>
                            if ret \<noteq> KNOT_EOK then Return (ret, ctx2, tr1)
                            else send_query_loop ext fam rounds [] ctx2 tr1)"

text \<open>
  The two bytes of \<open>query_length = htons(buf_len)\<close> as they lie in memory: the length,
  cut to 16 bits, most significant byte first.
\<close>

definition query_length :: "nat \<Rightarrow> byte list" where
  "query_length buf_len =
     (let v = (of_nat buf_len :: 16 word) in [ucast (drop_bit 8 v), ucast v])"

text \<open>
  \<open>quic_send_dns_query\<close>; the buffer is the list of its \<open>buf_len\<close> bytes, a null
  context or buffer is \<open>None\<close>.
\<close>

definition quic_send_dns_query ::
  "quic_ext \<Rightarrow> family \<Rightarrow> round list \<Rightarrow> quic_ctx option \<Rightarrow> byte list option
     \<Rightarrow> (knot_ret \<times> quic_ctx option \<times> writev_call list) outcome"
where
  "quic_send_dns_query ext fam rounds ctx_arg buf_arg =
     (case (ctx_arg, buf_arg) of
        (Some ctx, Some buf) \<Rightarrow>
          let datav = [query_length (length buf), buf];
              ctx1 = ctx\<lparr>stream := (stream ctx)\<lparr>sent := sent (stream ctx)
                                                          + of_nat (length buf) + 2\<rparr>\<rparr>
          in (case send_query_loop ext fam rounds datav ctx1 [] of
                Return (ret, ctx2, tr) \<Rightarrow> Return (ret, Some ctx2, tr)
              | Crash \<Rightarrow> Crash
              | Pending \<Rightarrow> Pending)
      | _ \<Rightarrow> Return (KNOT_NET_ESEND, ctx_arg, []))"

text \<open>
  The loop of \<open>quic_recv_dns_response\<close>; \<open>quic_send\<close> is \<open>quic_send_data\<close> with the
  null vector. The result is the returned \<open>int\<close>, the context and the buffer.
\<close>

fun recv_response_loop ::
  "quic_ext \<Rightarrow> family \<Rightarrow> round list \<Rightarrow> quic_ctx \<Rightarrow> byte list
     \<Rightarrow> (ret_or_len \<times> quic_ctx \<times> byte list) outcome"
where
  "recv_response_loop ext fam [] ctx buf = Pending"
| "recv_response_loop ext fam (r # rounds) ctx buf =
     (case tls ctx of
        None \<Rightarrow> Crash
      | Some t \<Rightarrow>
          if quic_timeout (timestamp ctx) (wait t) (rd_now r)
          then Return (RET KNOT_NET_ETIMEOUT, ctx, buf)
          else
            let send = (\<lambda>ctx1 buf1.
                  case quic_send_data ext fam (rd_writes r) [] ctx1 [] of
                    Pending \<Rightarrow> Pending
                  | Crash \<Rightarrow> Crash
                  | Return (ret, ctx2, tr) \<Rightarrow>
                      if ret \<noteq> KNOT_EOK then Return (RET ret, ctx2, buf1)
                      else recv_response_loop ext fam rounds ctx2 buf1)
            in case rd_poll r of
                 POLL_FAILED e \<Rightarrow> Return (RET (knot_map_errno e), ctx, buf)
               | POLL_TIMEOUT \<Rightarrow> send ctx buf
               | POLL_READY \<Rightarrow>
                   case quic_recv ext (rd_recv r) ctx of
                     (ret, ctx1) \<Rightarrow>
                       if ret \<noteq> KNOT_EOK then Return (RET ret, ctx1, buf)
                       else
                         case quic_respcpy ctx1 buf of
                           Pending \<Rightarrow> Pending
                         | Crash \<Rightarrow> Crash
                         | Return (ret, ctx2, buf2) \<Rightarrow>
                             if \<not> ret_is_zero ret then Return (ret, ctx2, buf2)
                             else send ctx2 buf2)"

definition quic_recv_dns_response ::
  "quic_ext \<Rightarrow> family \<Rightarrow> round list \<Rightarrow> quic_ctx option \<Rightarrow> byte list option
     \<Rightarrow> (ret_or_len \<times> quic_ctx option \<times> byte list option) outcome"
where
  "quic_recv_dns_response ext fam rounds ctx_arg buf_arg =
     (case (ctx_arg, buf_arg) of
        (Some ctx, Some buf) \<Rightarrow>
          (case tls ctx of
             None \<Rightarrow> Return (RET KNOT_EINVAL, ctx_arg, buf_arg)
           | Some t \<Rightarrow>
               case quic_respcpy ctx buf of
                 Pending \<Rightarrow> Pending
               | Crash \<Rightarrow> Crash
               | Return (ret, ctx1, buf1) \<Rightarrow>
                   if \<not> ret_is_zero ret then Return (ret, Some ctx1, Some buf1)
                   else
                     case recv_response_loop ext fam rounds ctx1 buf1 of
                       Return (ret, ctx2, buf2) \<Rightarrow> Return (ret, Some ctx2, Some buf2)
                     | Crash \<Rightarrow> Crash
                     | Pending \<Rightarrow> Pending)
      | _ \<Rightarrow> Return (RET KNOT_EINVAL, ctx_arg, buf_arg))"

section \<open>Reference definitions and test inputs\<close>

text \<open>
  The table of digest lengths as the specification words it:
  SHA-1 (1) is 20, SHA-256 (2) is 32, GOST (3) is 32, SHA-384 (4) is 48.
\<close>

definition spec_digest_len :: "byte \<Rightarrow> nat option" where
  "spec_digest_len digest_type =
     (if digest_type = 1 then Some 20
      else if digest_type = 2 then Some 32
      else if digest_type = 3 then Some 32
      else if digest_type = 4 then Some 48
      else None)"

text \<open>What one DS record adds to the callback invocations (the body of the loop).\<close>

definition ds_rr_findings ::
  "'k sem_lib \<Rightarrow> (nat \<Rightarrow> 16 word) \<Rightarrow> dname \<Rightarrow> rdata \<Rightarrow> finding list"
where
  "ds_rr_findings lib beyond ow ds =
     (let info = Some (keytag_info (knot_ds_key_tag ds)) in
      if \<not> dnssec_algorithm_digest_support lib (knot_ds_digest_type ds)
      then [\<lparr>f_owner = ow, f_code = SEM_ERR_DS_RDATA_ALG, f_info = info\<rparr>]
      else if digest_sizes_at beyond (knot_ds_digest_type ds) \<noteq> knot_ds_digest_len ds
      then [\<lparr>f_owner = ow, f_code = SEM_ERR_DS_RDATA_DIGLEN, f_info = info\<rparr>]
      else [])"

text \<open>
  Stand-ins for the libraries, for the test inputs: no name is in the zone, the digest
  types 1, 2 and 4 are supported, every CDNSKEY makes a key (the record itself), and
  the DS of a key is a four-byte header with the digest type followed by the key.
\<close>

definition toy_ds :: "rdata \<Rightarrow> byte \<Rightarrow> rdata" where
  "toy_ds key digest_type = [0, 0, 8, digest_type] @ key"

definition lib0 :: "rdata sem_lib" where
  "lib0 =
     \<lparr>zone_contents_find_dname = (\<lambda>z name. FIND_EOUTOFZONE),
      zone_contents_find_node = (\<lambda>z name. None),
      dnssec_algorithm_digest_support = (\<lambda>t. t = 1 \<or> t = 2 \<or> t = 4),
      dnssec_key_from_rdata = (\<lambda>ow r. (KNOT_EOK, r)),
      dnssec_key_create_ds = (\<lambda>key t. (KNOT_EOK, toy_ds key t)),
      knot_dnssec_validate_zone = (\<lambda>z t. (KNOT_EOK, None)),
      knot_rrtype_to_string = (\<lambda>t. [])\<rparr>"

text \<open>A handler whose callback leaves the flags as they are.\<close>

definition handler0 :: sem_handler where
  "handler0 = \<lparr>cb = (\<lambda>fl z ow code info. fl), error = False, fatal_error = False\<rparr>"

definition data0 :: "zone_contents \<Rightarrow> check_level_t \<Rightarrow> semchecks_data" where
  "data0 z lvl =
     \<lparr>zone = z, handler = handler0, next_nsec = apex z, level = lvl, time = 0, calls = []\<rparr>"

text \<open>A DS with key tag 12345, digest type 2 and a digest of 31 bytes.\<close>

definition ds_31 :: rdata where
  "ds_31 = [48, 57, 8, 2] @ replicate 31 0"

definition zone_ds :: zone_contents where
  "zone_ds =
     \<lparr>apex = 0,
      nodes = [\<lparr>owner = [0], flags = {NODE_FLAGS_APEX}, rrs = [(KNOT_RRTYPE_SOA, [[0]])],
                children = 1, has_nsec3_node = False\<rparr>,
               \<lparr>owner = [1, 97, 0], flags = {NODE_FLAGS_DELEG},
                rrs = [(KNOT_RRTYPE_NS, [[1, 98, 0]]), (KNOT_RRTYPE_DS, [ds_31])],
                children = 0, has_nsec3_node = False\<rparr>],
      dnssec = False\<rparr>"
text \<open>The callback invocations a check added to those of the context it started from.\<close>

definition new_calls :: "semchecks_data \<Rightarrow> semchecks_data \<Rightarrow> finding list" where
  "new_calls d d' = drop (length (calls d)) (calls d')"

text \<open>
  The DS computed from a CDNSKEY for a digest type, as \<open>check_submission\<close> computes
  it: the key made from the record, then its DS; none when either step fails.
\<close>

definition ds_of :: "'k sem_lib \<Rightarrow> dname \<Rightarrow> rdata \<Rightarrow> byte \<Rightarrow> rdata option" where
  "ds_of lib apex_owner cdnskey digest_type =
     (case dnssec_key_from_rdata lib apex_owner cdnskey of
        (ret, key) \<Rightarrow>
          if ret \<noteq> KNOT_EOK then None
          else case dnssec_key_create_ds lib key digest_type of
                 (ret, ds) \<Rightarrow> if ret \<noteq> KNOT_EOK then None else Some ds)"

text \<open>The premises of the submission law as the specification words them (claim C4).\<close>

definition rrset_records :: "zone_node \<Rightarrow> rrtype \<Rightarrow> rdata list" where
  "rrset_records n t = (case node_rdataset n t of None \<Rightarrow> [] | Some rs \<Rightarrow> rs)"

definition submission_law_premises :: "'k sem_lib \<Rightarrow> zone_contents \<Rightarrow> nat \<Rightarrow> bool" where
  "submission_law_premises lib z node =
     (let D = rrset_records (node_of z (apex z)) KNOT_RRTYPE_DNSKEY;
          Ck = rrset_records (node_of z node) KNOT_RRTYPE_CDNSKEY;
          Cs = rrset_records (node_of z node) KNOT_RRTYPE_CDS
      in (\<forall>ck \<in> set Ck. \<not> is_delete_cdnskey ck \<longrightarrow> ck \<in> set D) \<and>
         (\<forall>cs \<in> set Cs. \<not> is_delete_cds cs \<longrightarrow>
            (\<exists>ck \<in> set Ck.
               ds_of lib (owner (node_of z (apex z))) ck (knot_ds_digest_type cs) = Some cs)) \<and>
         length Cs \<ge> length Ck)"

definition submission_errors :: "sem_error set" where
  "submission_errors =
     {SEM_ERR_CDS_NONE, SEM_ERR_CDNSKEY_NONE, SEM_ERR_DNSKEY_NONE, SEM_ERR_CDNSKEY_NO_DNSKEY,
      SEM_ERR_CDS_NOT_MATCH, SEM_ERR_CDNSKEY_INVALID_DELETE, SEM_ERR_CDNSKEY_NO_CDS}"

text \<open>Test zones with the apex as their only node, and a DNSKEY record.\<close>

definition zone_apex :: "(rrtype \<times> rdata list) list \<Rightarrow> zone_contents" where
  "zone_apex rs =
     \<lparr>apex = 0,
      nodes = [\<lparr>owner = [0], flags = {NODE_FLAGS_APEX}, rrs = rs, children = 0,
                has_nsec3_node = False\<rparr>],
      dnssec = True\<rparr>"

definition key1 :: rdata where
  "key1 = [1, 1, 3, 8, 1, 2, 3, 4]"

text \<open>A libdnssec whose \<open>dnssec_key_create_ds\<close> fails (as for a digest type it does not know).\<close>

definition lib_ds_fails :: "rdata sem_lib" where
  "lib_ds_fails = lib0\<lparr>dnssec_key_create_ds := (\<lambda>key t. (KNOT_EINVAL, []))\<rparr>"

definition level_nsec :: check_level_t where "level_nsec = MANDATORY OR OPTIONAL OR NSEC"

definition zone_cds_only :: zone_contents where
  "zone_cds_only = zone_apex [(KNOT_RRTYPE_CDS, [empty_cds])]"

definition zone_delete_no_dnskey :: zone_contents where
  "zone_delete_no_dnskey =
     zone_apex [(KNOT_RRTYPE_CDS, [empty_cds]), (KNOT_RRTYPE_CDNSKEY, [empty_cdnskey])]"

definition zone_delete_extra_cds :: zone_contents where
  "zone_delete_extra_cds =
     zone_apex [(KNOT_RRTYPE_CDS, [empty_cds, toy_ds key1 2]), (KNOT_RRTYPE_CDNSKEY, [key1]),
                (KNOT_RRTYPE_DNSKEY, [key1])]"

definition zone_submission_ok :: zone_contents where
  "zone_submission_ok =
     zone_apex [(KNOT_RRTYPE_CDS, [toy_ds key1 2]), (KNOT_RRTYPE_CDNSKEY, [key1]),
                (KNOT_RRTYPE_DNSKEY, [key1])]"

definition zone_delete_cds_key :: zone_contents where
  "zone_delete_cds_key =
     zone_apex [(KNOT_RRTYPE_SOA, [[0]]), (KNOT_RRTYPE_CDS, [empty_cds]),
                (KNOT_RRTYPE_CDNSKEY, [key1]), (KNOT_RRTYPE_DNSKEY, [key1])]"

definition zone_cds_gost :: zone_contents where
  "zone_cds_gost =
     zone_apex [(KNOT_RRTYPE_CDS, [toy_ds key1 3, empty_cds]), (KNOT_RRTYPE_CDNSKEY, [key1]),
                (KNOT_RRTYPE_DNSKEY, [key1])]"

text \<open>
  A callback that turns the error flag the checker raised into \<open>fatal_error\<close> and
  never takes \<open>fatal_error\<close> back.
\<close>

definition escalating :: "sem_callback \<Rightarrow> bool" where
  "escalating c = (\<forall>e f z ow code info. (e \<or> f) \<longrightarrow> snd (c (e, f) z ow code info))"

text \<open>The \<open>SOA_NONE\<close> invocations among the callback invocations of a context.\<close>

definition soa_calls :: "semchecks_data \<Rightarrow> finding list" where
  "soa_calls d = filter (\<lambda>f. f_code f = SEM_ERR_SOA_NONE) (calls d)"

text \<open>A callback that returns the \<open>fatal_error\<close> flag as it was given it.\<close>

definition keeps_fatal :: "sem_callback \<Rightarrow> bool" where
  "keeps_fatal c = (\<forall>e f z ow code info. snd (c (e, f) z ow code info) = f)"

text \<open>
  What the checker does to the handler, in any number of steps: it raises the \<open>error\<close>
  flag, and it invokes the callback.
\<close>

inductive checker_steps :: "sem_handler \<Rightarrow> sem_handler \<Rightarrow> bool" where
  same: "checker_steps h h"
| raise: "checker_steps h h' \<Longrightarrow> checker_steps h (h'\<lparr>error := True\<rparr>)"
| call: "checker_steps h h' \<Longrightarrow> checker_steps h (handler_cb h' z ow code info)"

text \<open>
  A step of the checker from one context to a later one that keeps the zone and the
  level, adds no \<open>SOA_NONE\<close> invocation and touches the handler by such steps only.
\<close>

definition quiet :: "semchecks_data \<Rightarrow> semchecks_data \<Rightarrow> bool" where
  "quiet d d' =
     (zone d' = zone d \<and> level d' = level d \<and> soa_calls d' = soa_calls d \<and>
      checker_steps (handler d) (handler d'))"

text \<open>The \<open>SOA_NONE\<close> invocation for the apex of a zone.\<close>

definition soa_none_at :: "zone_contents \<Rightarrow> finding" where
  "soa_none_at z =
     \<lparr>f_owner = owner (node_of z (apex z)), f_code = SEM_ERR_SOA_NONE, f_info = None\<rparr>"

text \<open>
  A zone whose apex has an NS set and no SOA; a handler whose callback escalates the
  error flag and clears it.
\<close>

definition zone_no_soa :: zone_contents where
  "zone_no_soa = (zone_apex [(KNOT_RRTYPE_NS, [[2, 110, 115, 0]])])\<lparr>dnssec := False\<rparr>"

definition handler_esc :: sem_handler where
  "handler_esc =
     \<lparr>cb = (\<lambda>fl z ow code info. (False, fst fl \<or> snd fl)), error = False, fatal_error = False\<rparr>"
text \<open>The level of a context includes \<open>MANDATORY\<close>.\<close>

definition has_mandatory :: "semchecks_data \<Rightarrow> bool" where
  "has_mandatory d = (MANDATORY AND level d \<noteq> 0)"

text \<open>
  Test inputs for the client: stand-ins for the libraries (the inbound buffer takes every
  chunk as one completed message), a context with stream 0 open, and the environment's
  steps.
\<close>

definition ext0 :: quic_ext where
  "ext0 =
     \<lparr>tcp_inbuf_update = (\<lambda>inb data outs total.
        (KNOT_EOK, inb,
         Some ((case outs of None \<Rightarrow> [] | Some ms \<Rightarrow> ms) @ [data]), total + length data)),
      ngtcp2_err_infer_quic_transport_error_code = (\<lambda>liberr. 1)\<rparr>"

definition ctx0 :: quic_ctx where
  "ctx0 =
     \<lparr>state = CONNECTED,
      stream = \<lparr>id' = 0, sent = 0, in_storage = [], out_storage = None, out_storage_it = 0,
                out_storage_total = 0\<rparr>,
      last_err = \<lparr>err_type = NGTCP2_CONNECTION_CLOSE_ERROR_CODE_TYPE_APPLICATION,
                  error_code = DOQ_NO_ERROR, reason = None, reasonlen = 0\<rparr>,
      pi_ecn = 0,
      timestamp = 0,
      tls = Some \<lparr>wait = 5, sockfd = 3\<rparr>\<rparr>"

text \<open>A datagram of 1200 bytes from an IPv4 peer, with its TOS control message.\<close>

definition recv0 :: "quic_event list \<Rightarrow> int \<Rightarrow> recv_step" where
  "recv0 events ret =
     \<lparr>r_nwrite = 1200, r_mapped = KNOT_EOK, r_family = AF_INET,
      r_cmsgs = [\<lparr>cmsg_level = IPPROTO_IP, cmsg_type = IP_TOS, cmsg_len = 13, cmsg_data = 2\<rparr>],
      r_events = events, r_ret = ret\<rparr>"

text \<open>
  The datagram of a step reaches \<open>ngtcp2_conn_read_pkt\<close>: \<open>recvmsg\<close> returned a
  positive count and \<open>quic_get_ecn\<close> found the ECN, or a zero ECN without setting
  \<open>errno\<close>.
\<close>

definition datagram_read :: "recv_step \<Rightarrow> bool" where
  "datagram_read r =
     (0 < r_nwrite r \<and>
      \<not> (fst (quic_get_ecn (r_cmsgs r) (r_family r)) = 0 \<and>
         snd (quic_get_ecn (r_cmsgs r) (r_family r)) \<noteq> None))"

text \<open>The context in which the callbacks of a step run.\<close>

definition with_ecn :: "recv_step \<Rightarrow> quic_ctx \<Rightarrow> quic_ctx" where
  "with_ecn r ctx = ctx\<lparr>pi_ecn := fst (quic_get_ecn (r_cmsgs r) (r_family r))\<rparr>"

text \<open>
  The close error that \<open>stream_open_cb\<close> leaves in the context: its reason points to
  the array of the callback, whose lifetime has ended.
\<close>

definition cant_open_error :: ngtcp2_connection_close_error where
  "cant_open_error =
     \<lparr>err_type = NGTCP2_CONNECTION_CLOSE_ERROR_CODE_TYPE_APPLICATION,
      error_code = DOQ_PROTOCOL_ERROR,
      reason = Some ENDED,
      reasonlen = 26\<rparr>"

text \<open>A context with two completed messages waiting, of 3 and of 2 bytes.\<close>

definition ctx_queued :: quic_ctx where
  "ctx_queued = ctx0\<lparr>stream := (stream ctx0)\<lparr>out_storage := Some [[1, 2, 3], [4, 5]]\<rparr>\<rparr>"
text \<open>
  A query of three bytes and a turn of the driver loop in which the library writes one
  datagram and the peer acknowledges the five bytes of the framed query on stream 0.
\<close>

definition query3 :: "byte list" where
  "query3 = [1, 2, 3]"

definition round_acked :: round where
  "round_acked =
     \<lparr>rd_now = 0,
      rd_writes = [\<lparr>ws_events = [], ws_nwrite = 50, ws_setsockopt = None, ws_sendmsg_ok = True\<rparr>,
                   \<lparr>ws_events = [], ws_nwrite = 0, ws_setsockopt = None, ws_sendmsg_ok = True\<rparr>],
      rd_poll = POLL_READY,
      rd_recv = recv0 [ACKED_STREAM_DATA_OFFSET 0 5] 0\<rparr>"


text \<open>The order of the connection states.\<close>

definition state_rank :: "quic_state_t \<Rightarrow> nat" where
  "state_rank s = (case s of OPENING \<Rightarrow> 0 | CONNECTED \<Rightarrow> 1 | CLOSED \<Rightarrow> 2)"

text \<open>The state after a step is the state before it or \<open>CONNECTED\<close>.\<close>

definition state_step :: "quic_state_t \<Rightarrow> quic_state_t \<Rightarrow> bool" where
  "state_step s s' = (s' = s \<or> s' = CONNECTED)"

text \<open>Two contexts that agree in every field but the state.\<close>

definition same_but_state :: "quic_ctx \<Rightarrow> quic_ctx \<Rightarrow> bool" where
  "same_but_state c c' =
     (stream c = stream c' \<and> last_err c = last_err c' \<and> pi_ecn c = pi_ecn c' \<and>
      timestamp c = timestamp c' \<and> tls c = tls c')"

text \<open>
  Two outcomes of the same kind whose results, when they return, agree in the returned
  value, in the third component and in the context up to its state.
\<close>

definition same_result ::
  "('a \<times> quic_ctx \<times> 'b) outcome \<Rightarrow> ('a \<times> quic_ctx \<times> 'b) outcome \<Rightarrow> bool"
where
  "same_result o1 o2 =
     (case o1 of
        Return (r1, c1, x1) \<Rightarrow>
          (case o2 of
             Return (r2, c2, x2) \<Rightarrow> r1 = r2 \<and> x1 = x2 \<and> same_but_state c1 c2
           | _ \<Rightarrow> False)
      | Crash \<Rightarrow> o2 = Crash
      | Pending \<Rightarrow> o2 = Pending)"

definition same_result_opt ::
  "('a \<times> quic_ctx option \<times> 'b) outcome \<Rightarrow> ('a \<times> quic_ctx option \<times> 'b) outcome \<Rightarrow> bool"
where
  "same_result_opt o1 o2 =
     (case o1 of
        Return (r1, c1, x1) \<Rightarrow>
          (case o2 of
             Return (r2, c2, x2) \<Rightarrow>
               r1 = r2 \<and> x1 = x2 \<and>
               (case c1 of
                  Some a \<Rightarrow> (case c2 of Some b \<Rightarrow> same_but_state a b | None \<Rightarrow> False)
                | None \<Rightarrow> c2 = None)
           | _ \<Rightarrow> False)
      | Crash \<Rightarrow> o2 = Crash
      | Pending \<Rightarrow> o2 = Pending)"

section \<open>Properties of the semantic checks\<close>

lemma calls_emit:
  "calls (emit d ow code info) = calls d @ [\<lparr>f_owner = ow, f_code = code, f_info = info\<rparr>]"
  by (simp add: emit_def)

subsection \<open>DS records\<close>

lemma calls_check_ds_rr:
  "calls (check_ds_rr lib beyond ow ds d) = calls d @ ds_rr_findings lib beyond ow ds"
  by (simp add: check_ds_rr_def ds_rr_findings_def Let_def calls_emit)

lemma calls_fold_check_ds_rr:
  "calls (fold (check_ds_rr lib beyond ow) dss d)
     = calls d @ concat (map (ds_rr_findings lib beyond ow) dss)"
  by (induction dss arbitrary: d) (simp_all add: calls_check_ds_rr)

lemma unat_digest_len:
  "4 \<le> length ds \<Longrightarrow> length ds \<le> 65535 \<Longrightarrow> unat (knot_ds_digest_len ds) = length ds - 4"
  unfolding knot_ds_digest_len_def
  by (simp add: unat_sub_if' unat_of_nat word_le_nat_alt)

lemma digest_sizes_at_table:
  "spec_digest_len t = Some n \<Longrightarrow> digest_sizes_at beyond t = of_nat n"
  by (auto simp: spec_digest_len_def digest_sizes_at_def digest_sizes_def split: if_splits)

lemma spec_digest_len_bound: "spec_digest_len t = Some n \<Longrightarrow> n < 65536"
  by (auto simp: spec_digest_len_def split: if_splits)

lemma digest_differs:
  assumes "spec_digest_len t = Some n" "4 \<le> length ds" "length ds \<le> 65535"
  shows "(digest_sizes_at beyond t \<noteq> knot_ds_digest_len ds) = (n \<noteq> length ds - 4)"
proof -
  have "unat (digest_sizes_at beyond t) = n"
    using assms(1) spec_digest_len_bound[OF assms(1)]
    by (simp add: digest_sizes_at_table unat_of_nat)
  moreover have "unat (knot_ds_digest_len ds) = length ds - 4"
    using assms by (simp add: unat_digest_len)
  ultimately show ?thesis
    by (auto simp: word_unat_eq_iff)
qed

text \<open>
  C6. At a node with a DS set whose records have the DS wire format (at least the four
  header bytes, at most 65535 bytes), \<open>check_ds\<close> returns OK and the callback
  invocations it adds are, record by record and in order, those of each record:
  for a record whose digest type is not supported, one \<open>DS_RDATA_ALG\<close>; for a record
  whose digest type is supported and in the table (1: 20, 2: 32, 3: 32, 4: 48), one
  \<open>DS_RDATA_DIGLEN\<close> when its digest length differs from the table's, and nothing
  otherwise. Each invocation is at the node's owner and carries the info string
  \<open>(keytag N)\<close>, N the record's key tag in decimal.
\<close>

theorem check_ds_per_record:
  assumes "node_rdataset (node_of (zone d) node) KNOT_RRTYPE_DS = Some dss"
    and "\<forall>ds \<in> set dss. 4 \<le> length ds \<and> length ds \<le> 65535"
  shows "\<exists>fs. fst (check_ds lib beyond node d) = KNOT_EOK \<and>
           calls (snd (check_ds lib beyond node d)) = calls d @ concat fs \<and>
           length fs = length dss \<and>
           (\<forall>i < length dss.
              let ds = dss ! i;
                  digest_type = knot_ds_digest_type ds;
                  ow = owner (node_of (zone d) node);
                  info = Some (''(keytag '' @ dec_digits (unat (knot_ds_key_tag ds)) @ '')'')
              in (\<not> dnssec_algorithm_digest_support lib digest_type \<longrightarrow>
                    fs ! i = [\<lparr>f_owner = ow, f_code = SEM_ERR_DS_RDATA_ALG, f_info = info\<rparr>]) \<and>
                 (dnssec_algorithm_digest_support lib digest_type \<longrightarrow>
                    (\<forall>n. spec_digest_len digest_type = Some n \<longrightarrow>
                       fs ! i =
                         (if n \<noteq> length ds - 4
                          then [\<lparr>f_owner = ow, f_code = SEM_ERR_DS_RDATA_DIGLEN,
                                  f_info = info\<rparr>]
                          else []))))"
proof -
  let ?ow = "owner (node_of (zone d) node)"
  let ?fs = "map (ds_rr_findings lib beyond ?ow) dss"
  have a: "fst (check_ds lib beyond node d) = KNOT_EOK"
    using assms(1) by (simp add: check_ds_def)
  have b: "calls (snd (check_ds lib beyond node d)) = calls d @ concat ?fs"
    using assms(1) by (simp add: check_ds_def calls_fold_check_ds_rr)
  have c: "\<not> dnssec_algorithm_digest_support lib (knot_ds_digest_type ds) \<Longrightarrow>
      ds_rr_findings lib beyond ?ow ds =
        [\<lparr>f_owner = ?ow, f_code = SEM_ERR_DS_RDATA_ALG,
          f_info = Some (''(keytag '' @ dec_digits (unat (knot_ds_key_tag ds)) @ '')'')\<rparr>]"
    for ds
    by (simp add: ds_rr_findings_def Let_def keytag_info_def)
  have e: "dnssec_algorithm_digest_support lib (knot_ds_digest_type ds) \<Longrightarrow>
      spec_digest_len (knot_ds_digest_type ds) = Some n \<Longrightarrow>
      4 \<le> length ds \<Longrightarrow> length ds \<le> 65535 \<Longrightarrow>
      ds_rr_findings lib beyond ?ow ds =
        (if n \<noteq> length ds - 4
         then [\<lparr>f_owner = ?ow, f_code = SEM_ERR_DS_RDATA_DIGLEN,
                 f_info = Some (''(keytag '' @ dec_digits (unat (knot_ds_key_tag ds)) @ '')'')\<rparr>]
         else [])"
    for ds n
    using digest_differs[of "knot_ds_digest_type ds" n ds beyond]
    by (simp add: ds_rr_findings_def Let_def keytag_info_def)
  have f: "\<forall>i < length dss. 4 \<le> length (dss ! i) \<and> length (dss ! i) \<le> 65535"
    using assms(2) by simp
  show ?thesis
    apply (rule exI[of _ ?fs])
    using a b c e f by (simp add: Let_def)
qed

theorem check_ds_per_record_witness:
  "calls (snd (check_ds lib0 (\<lambda>i. 0) 1 (data0 zone_ds (MANDATORY OR OPTIONAL))))
     = [\<lparr>f_owner = [1, 97, 0], f_code = SEM_ERR_DS_RDATA_DIGLEN,
         f_info = Some ''(keytag 12345)''\<rparr>]"
proof -
  let ?d = "data0 zone_ds (MANDATORY OR OPTIONAL)"
  have ds: "node_rdataset (node_of (zone ?d) 1) KNOT_RRTYPE_DS = Some [ds_31]"
    by (simp add: data0_def zone_ds_def node_of_def node_rdataset_def)
  have wf: "\<forall>ds \<in> set [ds_31]. 4 \<le> length ds \<and> length ds \<le> 65535"
    by (simp add: ds_31_def)
  have supp: "dnssec_algorithm_digest_support lib0 (knot_ds_digest_type ds_31)"
    by (simp add: lib0_def knot_ds_digest_type_def byte_at_def ds_31_def)
  have len: "spec_digest_len (knot_ds_digest_type ds_31) = Some 32"
    by (simp add: spec_digest_len_def knot_ds_digest_type_def byte_at_def ds_31_def)
  have tag: "dec_digits (unat (knot_ds_key_tag ds_31)) = ''12345''"
    by (simp add: knot_ds_key_tag_def byte_at_def ds_31_def dec_digits.simps)
  have ow: "owner (node_of (zone ?d) 1) = [1, 97, 0]"
    by (simp add: data0_def zone_ds_def node_of_def)
  from check_ds_per_record [OF ds wf, of lib0 "\<lambda>i. 0"]
  obtain fs where
    c: "calls (snd (check_ds lib0 (\<lambda>i. 0) 1 ?d)) = calls ?d @ concat fs" and
    l: "length fs = 1" and
    p: "fs ! 0 = [\<lparr>f_owner = [1, 97, 0], f_code = SEM_ERR_DS_RDATA_DIGLEN,
                  f_info = Some ''(keytag 12345)''\<rparr>]"
    using supp len tag ow by (auto simp: Let_def ds_31_def)
  from l p have "fs = [[\<lparr>f_owner = [1, 97, 0], f_code = SEM_ERR_DS_RDATA_DIGLEN,
                  f_info = Some ''(keytag 12345)''\<rparr>]]"
    by (cases fs) auto
  with c show ?thesis by (simp add: data0_def)
qed

subsection \<open>CDS and CDNSKEY\<close>

lemma zone_emit [simp]: "zone (emit d ow code info) = zone d"
  by (simp add: emit_def)

lemma check_cdnskeys_flag:
  "fst (check_cdnskeys dnskeys ow cks fl d) = (fl \<or> (\<exists>ck \<in> set cks. is_delete_cdnskey ck))"
  by (induction cks arbitrary: fl d) auto

lemma check_cdnskeys_calls:
  "\<exists>xs. calls (snd (check_cdnskeys dnskeys ow cks fl d)) = calls d @ xs \<and>
        set xs \<subseteq> {\<lparr>f_owner = ow, f_code = SEM_ERR_CDNSKEY_NO_DNSKEY, f_info = None\<rparr>}"
proof (induction cks arbitrary: fl d)
  case Nil
  then show ?case by simp
next
  case (Cons ck cks)
  show ?case
  proof (cases "\<not> is_delete_cdnskey ck \<and> \<not> dnskey_match dnskeys ck")
    case True
    from Cons.IH[of fl "emit d ow SEM_ERR_CDNSKEY_NO_DNSKEY None"]
    obtain xs where "calls (snd (check_cdnskeys dnskeys ow cks fl (emit d ow SEM_ERR_CDNSKEY_NO_DNSKEY None)))
        = calls (emit d ow SEM_ERR_CDNSKEY_NO_DNSKEY None) @ xs"
      "set xs \<subseteq> {\<lparr>f_owner = ow, f_code = SEM_ERR_CDNSKEY_NO_DNSKEY, f_info = None\<rparr>}" by blast
    then show ?thesis using True
      by (intro exI[of _ "\<lparr>f_owner = ow, f_code = SEM_ERR_CDNSKEY_NO_DNSKEY, f_info = None\<rparr> # xs"])
         (simp add: emit_def)
  next
    case False
    then show ?thesis using Cons.IH by auto
  qed
qed

lemma check_cdnskeys_all_match:
  "\<forall>ck \<in> set cks. \<not> is_delete_cdnskey ck \<longrightarrow> dnskey_match dnskeys ck \<Longrightarrow>
   snd (check_cdnskeys dnskeys ow cks fl d) = d"
  by (induction cks arbitrary: fl d) auto

lemma check_cdnskeys_zone [simp]: "zone (snd (check_cdnskeys dnskeys ow cks fl d)) = zone d"
  by (induction cks arbitrary: fl d) auto

lemma cds_match_found:
  "\<exists>ck \<in> set cks. ds_of lib apex_owner ck t = Some cds \<Longrightarrow>
   cds_match lib apex_owner cds t cks \<noteq> Inr False"
  by (induction cks) (auto simp: ds_of_def split: prod.splits if_splits)

lemma cds_match_Inl:
  "cds_match lib ao cds t cks = Inl ret \<Longrightarrow> ret \<noteq> KNOT_EOK"
  by (induction cks) (auto split: prod.splits if_splits)

lemma check_cdss_flag:
  "check_cdss lib ao cks ow cdss fl d = (KNOT_EOK, fl', d') \<Longrightarrow>
   fl' = (fl \<or> (\<exists>cs \<in> set cdss. is_delete_cds cs))"
  by (induction cdss arbitrary: fl d)
     (auto simp: Let_def split: sum.splits if_splits dest: cds_match_Inl)

lemma check_cdss_calls:
  "\<exists>xs. calls (snd (snd (check_cdss lib ao cks ow cdss fl d))) = calls d @ xs \<and>
        set xs \<subseteq> {\<lparr>f_owner = ow, f_code = SEM_ERR_CDS_NOT_MATCH, f_info = None\<rparr>}"
proof (induction cdss arbitrary: fl d)
  case Nil
  then show ?case by simp
next
  case (Cons cs cdss)
  show ?case
  proof (cases "is_delete_cds cs")
    case True
    then show ?thesis using Cons.IH by (simp add: Let_def)
  next
    case nd: False
    show ?thesis
    proof (cases "cds_match lib ao cs (knot_ds_digest_type cs) cks")
      case (Inl ret)
      then show ?thesis using nd by (simp add: Let_def)
    next
      case (Inr m)
      show ?thesis
      proof (cases m)
        case True
        then show ?thesis using nd Inr Cons.IH by (simp add: Let_def)
      next
        case False
        from Cons.IH[of fl "emit d ow SEM_ERR_CDS_NOT_MATCH None"]
        obtain xs where "calls (snd (snd (check_cdss lib ao cks ow cdss fl (emit d ow SEM_ERR_CDS_NOT_MATCH None))))
            = calls (emit d ow SEM_ERR_CDS_NOT_MATCH None) @ xs"
          "set xs \<subseteq> {\<lparr>f_owner = ow, f_code = SEM_ERR_CDS_NOT_MATCH, f_info = None\<rparr>}" by blast
        then show ?thesis using nd Inr False
          by (intro exI[of _ "\<lparr>f_owner = ow, f_code = SEM_ERR_CDS_NOT_MATCH, f_info = None\<rparr> # xs"])
             (simp add: emit_def Let_def)
      qed
    qed
  qed
qed

lemma check_cdss_all_match:
  "\<forall>cs \<in> set cdss. \<not> is_delete_cds cs \<longrightarrow>
      (\<exists>ck \<in> set cks. ds_of lib ao ck (knot_ds_digest_type cs) = Some cs) \<Longrightarrow>
   snd (snd (check_cdss lib ao cks ow cdss fl d)) = d"
proof (induction cdss arbitrary: fl d)
  case Nil
  then show ?case by simp
next
  case (Cons cs cdss)
  show ?case
  proof (cases "is_delete_cds cs")
    case True
    then show ?thesis using Cons by (simp add: Let_def)
  next
    case False
    with Cons.prems have "cds_match lib ao cs (knot_ds_digest_type cs) cks \<noteq> Inr False"
      by (intro cds_match_found) simp
    then show ?thesis using False Cons
      by (cases "cds_match lib ao cs (knot_ds_digest_type cs) cks") (auto simp: Let_def)
  qed
qed

lemma dnskey_match_iff: "dnskey_match (Some ks) ck = (ck \<in> set ks)"
  by (auto simp: dnskey_match_def list_ex_iff)

lemma is_delete_cds_iff: "is_delete_cds r = (r = [0, 0, 0, 0, 0])"
  by (auto simp: is_delete_cds_def empty_cds_def)

lemma is_delete_cdnskey_iff: "is_delete_cdnskey r = (r = [0, 0, 3, 0, 0])"
  by (auto simp: is_delete_cdnskey_def empty_cdnskey_def)

lemma filter_code_singleton:
  "set xs \<subseteq> {\<lparr>f_owner = ow, f_code = c, f_info = i\<rparr>} \<Longrightarrow> c \<noteq> c' \<Longrightarrow>
   filter (\<lambda>f. f_code f = c') xs = []"
  by (induction xs) auto

lemma check_submission_present:
  assumes cds: "node_rdataset (node_of (zone d) node) KNOT_RRTYPE_CDS = Some cdss"
    and cdk: "node_rdataset (node_of (zone d) node) KNOT_RRTYPE_CDNSKEY = Some cdnskeys"
    and r1: "check_cdnskeys (node_rdataset (node_of (zone d) (apex (zone d))) KNOT_RRTYPE_DNSKEY)
               (owner (node_of (zone d) node)) cdnskeys False
               (if node_rdataset (node_of (zone d) (apex (zone d))) KNOT_RRTYPE_DNSKEY = None
                then emit d (owner (node_of (zone d) node)) SEM_ERR_DNSKEY_NONE None else d) = (fk, d2)"
    and r2: "check_cdss lib (owner (node_of (zone d) (apex (zone d)))) cdnskeys
               (owner (node_of (zone d) node)) cdss False d2 = (ret, fc, d3)"
  shows "check_submission lib node d =
     (if ret \<noteq> KNOT_EOK then (ret, d3)
      else (KNOT_EOK,
        let d4 = (if (fc \<and> (\<not> fk \<or> length cdss > 1)) \<or> (fk \<and> (\<not> fc \<or> length cdnskeys > 1))
                  then emit d3 (owner (node_of (zone d) node)) SEM_ERR_CDNSKEY_INVALID_DELETE None
                  else d3)
        in if length cdss < length cdnskeys
           then emit d4 (owner (node_of (zone d) node)) SEM_ERR_CDNSKEY_NO_CDS None
           else d4))"
  unfolding check_submission_def Let_def cds cdk
  apply (simp only: prod.case option.case)
  apply (subst r1)
  apply (simp only: prod.case)
  apply (subst r2)
  apply (simp only: prod.case)
  done

text \<open>
  C4 (amended). At a node checked under the NSEC or NSEC3 level that has both a CDS and a
  CDNSKEY set, in a zone whose apex has a DNSKEY set: if every non-delete CDNSKEY equals
  some apex DNSKEY, every non-delete CDS equals the DS computed from some CDNSKEY with
  the CDS's digest type, there are at least as many CDS as CDNSKEY, and delete records,
  if there are any, are exactly one delete CDS and one delete CDNSKEY, then
  \<open>check_submission\<close> does not call the handler at all: it leaves the context as it
  found it, so none of the submission codes is emitted.
\<close>

theorem check_submission_law:
  assumes cds: "node_rdataset (node_of (zone d) node) KNOT_RRTYPE_CDS = Some cdss"
    and cdk: "node_rdataset (node_of (zone d) node) KNOT_RRTYPE_CDNSKEY = Some cdnskeys"
    and dk: "node_rdataset (node_of (zone d) (apex (zone d))) KNOT_RRTYPE_DNSKEY = Some dnskeys"
    and m1: "\<forall>ck \<in> set cdnskeys. \<not> is_delete_cdnskey ck \<longrightarrow> ck \<in> set dnskeys"
    and m2: "\<forall>cs \<in> set cdss. \<not> is_delete_cds cs \<longrightarrow>
               (\<exists>ck \<in> set cdnskeys.
                  ds_of lib (owner (node_of (zone d) (apex (zone d)))) ck
                    (knot_ds_digest_type cs) = Some cs)"
    and cnt: "length cdss \<ge> length cdnskeys"
    and pair: "(\<exists>cs \<in> set cdss. is_delete_cds cs) \<or> (\<exists>ck \<in> set cdnskeys. is_delete_cdnskey ck)
               \<longrightarrow> cdss = [empty_cds] \<and> cdnskeys = [empty_cdnskey]"
  shows "snd (check_submission lib node d) = d"
proof -
  let ?ow = "owner (node_of (zone d) node)"
  let ?ao = "owner (node_of (zone d) (apex (zone d)))"
  let ?dnskeys = "node_rdataset (node_of (zone d) (apex (zone d))) KNOT_RRTYPE_DNSKEY"
  let ?d1 = "if ?dnskeys = None then emit d ?ow SEM_ERR_DNSKEY_NONE None else d"
  have d1: "?d1 = d" using dk by simp
  have a1: "snd (check_cdnskeys (Some dnskeys) ?ow cdnskeys False d) = d"
    by (rule check_cdnskeys_all_match) (use m1 in \<open>simp add: dnskey_match_iff\<close>)
  define fk where "fk = fst (check_cdnskeys (Some dnskeys) ?ow cdnskeys False d)"
  have r1: "check_cdnskeys ?dnskeys ?ow cdnskeys False ?d1 = (fk, d)"
    unfolding dk using a1 fk_def by (simp add: prod_eq_iff)
  have fk: "fk = (\<exists>ck \<in> set cdnskeys. is_delete_cdnskey ck)"
    unfolding fk_def by (rule check_cdnskeys_flag [of _ _ _ False, simplified])
  have a2: "snd (snd (check_cdss lib ?ao cdnskeys ?ow cdss False d)) = d"
    by (rule check_cdss_all_match) (rule m2)
  define ret where "ret = fst (check_cdss lib ?ao cdnskeys ?ow cdss False d)"
  define fc where "fc = fst (snd (check_cdss lib ?ao cdnskeys ?ow cdss False d))"
  have r2: "check_cdss lib ?ao cdnskeys ?ow cdss False d = (ret, fc, d)"
    using a2 ret_def fc_def by (simp add: prod_eq_iff)
  note unf = check_submission_present[OF cds cdk r1 r2]
  show ?thesis
  proof (cases "ret = KNOT_EOK")
    case False
    then show ?thesis by (simp add: unf)
  next
    case True
    with r2 have fc: "fc = (\<exists>cs \<in> set cdss. is_delete_cds cs)"
      using check_cdss_flag[of lib ?ao cdnskeys ?ow cdss False d fc d] by simp
    have nodel: "\<not> ((fc \<and> (\<not> fk \<or> length cdss > 1)) \<or> (fk \<and> (\<not> fc \<or> length cdnskeys > 1)))"
    proof (cases "fc \<or> fk")
      case False
      then show ?thesis by simp
    next
      case True
      then have "cdss = [empty_cds] \<and> cdnskeys = [empty_cdnskey]"
        using pair fc fk by blast
      then show ?thesis
        unfolding fc fk by (simp add: is_delete_cds_iff is_delete_cdnskey_iff empty_cds_def empty_cdnskey_def)
    qed
    show ?thesis
      using True nodel cnt by (auto simp add: unf Let_def)
  qed
qed

text \<open>
  C5 (amended). The delete records are exactly the five bytes 00 00 00 00 00 (CDS) and
  00 00 03 00 00 (CDNSKEY). At a node that has both a CDS and a CDNSKEY set, when
  \<open>check_submission\<close> returns OK (no DS computation failed), it emits
  \<open>CDNSKEY_INVALID_DELETE\<close> once, at the node's owner, if a delete record is present
  and the other set has no delete record or the set with the delete record has more than
  one record, and does not emit it otherwise.
\<close>

theorem check_submission_invalid_delete:
  assumes cds: "node_rdataset (node_of (zone d) node) KNOT_RRTYPE_CDS = Some cdss"
    and cdk: "node_rdataset (node_of (zone d) node) KNOT_RRTYPE_CDNSKEY = Some cdnskeys"
    and ok: "fst (check_submission lib node d) = KNOT_EOK"
  shows "(\<forall>r. is_delete_cds r = (r = [0, 0, 0, 0, 0])) \<and>
         (\<forall>r. is_delete_cdnskey r = (r = [0, 0, 3, 0, 0])) \<and>
         (let delete_cds = (\<exists>cs \<in> set cdss. is_delete_cds cs);
              delete_cdnskey = (\<exists>ck \<in> set cdnskeys. is_delete_cdnskey ck)
          in filter (\<lambda>f. f_code f = SEM_ERR_CDNSKEY_INVALID_DELETE)
               (new_calls d (snd (check_submission lib node d)))
             = (if (delete_cds \<and> (\<not> delete_cdnskey \<or> length cdss > 1)) \<or>
                   (delete_cdnskey \<and> (\<not> delete_cds \<or> length cdnskeys > 1))
                then [\<lparr>f_owner = owner (node_of (zone d) node),
                        f_code = SEM_ERR_CDNSKEY_INVALID_DELETE, f_info = None\<rparr>]
                else []))"
proof -
  let ?ow = "owner (node_of (zone d) node)"
  let ?ao = "owner (node_of (zone d) (apex (zone d)))"
  let ?dnskeys = "node_rdataset (node_of (zone d) (apex (zone d))) KNOT_RRTYPE_DNSKEY"
  let ?d1 = "if ?dnskeys = None then emit d ?ow SEM_ERR_DNSKEY_NONE None else d"
  let ?I = "\<lambda>f. f_code f = SEM_ERR_CDNSKEY_INVALID_DELETE"
  obtain fk d2 where r1: "check_cdnskeys ?dnskeys ?ow cdnskeys False ?d1 = (fk, d2)"
    by (cases "check_cdnskeys ?dnskeys ?ow cdnskeys False ?d1") auto
  have z2: "zone d2 = zone d"
    using check_cdnskeys_zone[of ?dnskeys ?ow cdnskeys False ?d1] r1 by simp
  obtain ret fc d3 where r2: "check_cdss lib ?ao cdnskeys ?ow cdss False d2 = (ret, fc, d3)"
    by (cases "check_cdss lib ?ao cdnskeys ?ow cdss False d2") auto
  note unf = check_submission_present[OF cds cdk r1 r2]
  have ret: "ret = KNOT_EOK"
    using ok by (simp add: unf split: if_splits)
  have fk: "fk = (\<exists>ck \<in> set cdnskeys. is_delete_cdnskey ck)"
    using check_cdnskeys_flag[of ?dnskeys ?ow cdnskeys False ?d1] r1 by simp
  have fc: "fc = (\<exists>cs \<in> set cdss. is_delete_cds cs)"
    using check_cdss_flag[of lib ?ao cdnskeys ?ow cdss False d2 fc d3] r2 ret by simp
  obtain xs where xs: "calls d2 = calls ?d1 @ xs"
      "set xs \<subseteq> {\<lparr>f_owner = ?ow, f_code = SEM_ERR_CDNSKEY_NO_DNSKEY, f_info = None\<rparr>}"
    using check_cdnskeys_calls[of ?dnskeys ?ow cdnskeys False ?d1] r1 by auto
  obtain ys where ys: "calls d3 = calls d2 @ ys"
      "set ys \<subseteq> {\<lparr>f_owner = ?ow, f_code = SEM_ERR_CDS_NOT_MATCH, f_info = None\<rparr>}"
    using check_cdss_calls[of lib ?ao cdnskeys ?ow cdss False d2] r2 by auto
  obtain ws where ws: "calls ?d1 = calls d @ ws" "filter ?I ws = []"
    by (cases "?dnskeys = None") (auto simp: calls_emit)
  have fx: "filter ?I xs = []" using xs(2) by (rule filter_code_singleton) simp
  have fy: "filter ?I ys = []" using ys(2) by (rule filter_code_singleton) simp
  have c3: "calls d3 = calls d @ (ws @ xs @ ys)"
    using xs(1) ys(1) ws(1) by simp
  let ?cond = "(fc \<and> (\<not> fk \<or> length cdss > 1)) \<or> (fk \<and> (\<not> fc \<or> length cdnskeys > 1))"
  let ?d4 = "if ?cond then emit d3 ?ow SEM_ERR_CDNSKEY_INVALID_DELETE None else d3"
  let ?d5 = "if length cdss < length cdnskeys then emit ?d4 ?ow SEM_ERR_CDNSKEY_NO_CDS None else ?d4"
  have res: "snd (check_submission lib node d) = ?d5"
    using ret by (simp add: unf Let_def)
  have "filter ?I (new_calls d ?d5) =
          (if ?cond then [\<lparr>f_owner = ?ow, f_code = SEM_ERR_CDNSKEY_INVALID_DELETE, f_info = None\<rparr>] else [])"
    using c3 ws(2) fx fy by (simp add: new_calls_def calls_emit)
  then show ?thesis
    unfolding res using fk fc
    by (simp add: Let_def is_delete_cds_iff is_delete_cdnskey_iff)
qed

text \<open>The definitions that evaluate \<open>check_submission\<close> on the test inputs.\<close>

lemmas sub_eval =
  check_submission_def check_cdnskeys.simps check_cdss.simps cds_match.simps
  node_rdataset_def node_of_def data0_def zone_apex_def handler0_def lib0_def lib_ds_fails_def
  emit_def handler_cb_def is_delete_cds_def is_delete_cdnskey_def empty_cds_def empty_cdnskey_def
  dnskey_match_def toy_ds_def key1_def level_nsec_def knot_ds_digest_type_def byte_at_def
  Let_def

theorem check_submission_law_witness:
  "snd (check_submission lib0 0 (data0 zone_submission_ok level_nsec))
     = data0 zone_submission_ok level_nsec"
proof -
  let ?d = "data0 zone_submission_ok level_nsec"
  have z: "zone ?d = zone_submission_ok" by (simp add: data0_def)
  have cds: "node_rdataset (node_of (zone ?d) 0) KNOT_RRTYPE_CDS = Some [toy_ds key1 2]"
    by (simp add: data0_def zone_submission_ok_def zone_apex_def node_of_def node_rdataset_def)
  have cdk: "node_rdataset (node_of (zone ?d) 0) KNOT_RRTYPE_CDNSKEY = Some [key1]"
    by (simp add: data0_def zone_submission_ok_def zone_apex_def node_of_def node_rdataset_def)
  have dk: "node_rdataset (node_of (zone ?d) (apex (zone ?d))) KNOT_RRTYPE_DNSKEY = Some [key1]"
    by (simp add: data0_def zone_submission_ok_def zone_apex_def node_of_def node_rdataset_def)
  have m1: "\<forall>ck \<in> set [key1]. \<not> is_delete_cdnskey ck \<longrightarrow> ck \<in> set [key1]"
    by simp
  have m2: "\<forall>cs \<in> set [toy_ds key1 2]. \<not> is_delete_cds cs \<longrightarrow>
      (\<exists>ck \<in> set [key1].
         ds_of lib0 (owner (node_of (zone ?d) (apex (zone ?d)))) ck (knot_ds_digest_type cs) = Some cs)"
    by (simp add: ds_of_def lib0_def toy_ds_def knot_ds_digest_type_def byte_at_def)
  have cnt: "length [toy_ds key1 2] \<ge> length [key1]" by simp
  have pair: "(\<exists>cs \<in> set [toy_ds key1 2]. is_delete_cds cs) \<or> (\<exists>ck \<in> set [key1]. is_delete_cdnskey ck)
      \<longrightarrow> [toy_ds key1 2] = [empty_cds] \<and> [key1] = [empty_cdnskey]"
    by (simp add: is_delete_cds_def is_delete_cdnskey_def toy_ds_def key1_def)
  show ?thesis
    by (rule check_submission_law [OF cds cdk dk m1 m2 cnt pair])
qed

text \<open>
  The claim C4 as stated fails on three inputs that satisfy its premises: a node with a
  single delete CDS and no CDNSKEY set (\<open>CDNSKEY_NONE\<close>), a node with one delete CDS
  and one delete CDNSKEY in a zone without DNSKEY (\<open>DNSKEY_NONE\<close>), and a node with a
  delete CDS beside a matching CDS (\<open>CDNSKEY_INVALID_DELETE\<close>).
\<close>

theorem submission_law_counterexample:
  "submission_law_premises lib0 zone_cds_only 0 \<and>
   map f_code (calls (snd (check_submission lib0 0 (data0 zone_cds_only level_nsec))))
     = [SEM_ERR_CDNSKEY_NONE] \<and>
   submission_law_premises lib0 zone_delete_no_dnskey 0 \<and>
   map f_code (calls (snd (check_submission lib0 0 (data0 zone_delete_no_dnskey level_nsec))))
     = [SEM_ERR_DNSKEY_NONE] \<and>
   submission_law_premises lib0 zone_delete_extra_cds 0 \<and>
   map f_code (calls (snd (check_submission lib0 0 (data0 zone_delete_extra_cds level_nsec))))
     = [SEM_ERR_CDNSKEY_INVALID_DELETE] \<and>
   {SEM_ERR_CDNSKEY_NONE, SEM_ERR_DNSKEY_NONE, SEM_ERR_CDNSKEY_INVALID_DELETE}
     \<subseteq> submission_errors"
proof -
  have p1: "submission_law_premises lib0 zone_cds_only 0"
    by (simp add: submission_law_premises_def rrset_records_def zone_cds_only_def sub_eval)
  have c1: "map f_code (calls (snd (check_submission lib0 0 (data0 zone_cds_only level_nsec))))
     = [SEM_ERR_CDNSKEY_NONE]"
    by (simp add: zone_cds_only_def sub_eval)
  have p2: "submission_law_premises lib0 zone_delete_no_dnskey 0"
    by (simp add: submission_law_premises_def rrset_records_def zone_delete_no_dnskey_def sub_eval)
  have c2: "map f_code (calls (snd (check_submission lib0 0 (data0 zone_delete_no_dnskey level_nsec))))
     = [SEM_ERR_DNSKEY_NONE]"
    by (simp add: zone_delete_no_dnskey_def sub_eval)
  have p3: "submission_law_premises lib0 zone_delete_extra_cds 0"
    by (simp add: submission_law_premises_def rrset_records_def zone_delete_extra_cds_def ds_of_def sub_eval)
  have c3: "map f_code (calls (snd (check_submission lib0 0 (data0 zone_delete_extra_cds level_nsec))))
     = [SEM_ERR_CDNSKEY_INVALID_DELETE]"
    by (simp add: zone_delete_extra_cds_def sub_eval)
  have s: "{SEM_ERR_CDNSKEY_NONE, SEM_ERR_DNSKEY_NONE, SEM_ERR_CDNSKEY_INVALID_DELETE}
     \<subseteq> submission_errors"
    by (simp add: submission_errors_def)
  from p1 c1 p2 c2 p3 c3 s show ?thesis by blast
qed

theorem check_submission_invalid_delete_witness:
  "filter (\<lambda>f. f_code f = SEM_ERR_CDNSKEY_INVALID_DELETE)
     (new_calls (data0 zone_delete_cds_key level_nsec)
        (snd (check_submission lib0 0 (data0 zone_delete_cds_key level_nsec))))
   = [\<lparr>f_owner = [0], f_code = SEM_ERR_CDNSKEY_INVALID_DELETE, f_info = None\<rparr>]"
proof -
  let ?d = "data0 zone_delete_cds_key level_nsec"
  have cds: "node_rdataset (node_of (zone ?d) 0) KNOT_RRTYPE_CDS = Some [empty_cds]"
    by (simp add: data0_def zone_delete_cds_key_def zone_apex_def node_of_def node_rdataset_def)
  have cdk: "node_rdataset (node_of (zone ?d) 0) KNOT_RRTYPE_CDNSKEY = Some [key1]"
    by (simp add: data0_def zone_delete_cds_key_def zone_apex_def node_of_def node_rdataset_def)
  have ok: "fst (check_submission lib0 0 ?d) = KNOT_EOK"
    by (simp add: zone_delete_cds_key_def sub_eval)
  have ow: "owner (node_of (zone ?d) 0) = [0]"
    by (simp add: data0_def zone_delete_cds_key_def zone_apex_def node_of_def)
  from check_submission_invalid_delete [OF cds cdk ok] ow
  show ?thesis
    by (simp add: Let_def is_delete_cds_def is_delete_cdnskey_def empty_cds_def key1_def)
qed

text \<open>
  The claim C5 as stated fails where the check returns before the delete test: a delete
  CDS at a node with no CDNSKEY set gives \<open>CDNSKEY_NONE\<close> only, and a delete CDS
  after a CDS whose DS computation fails gives no finding, the check returning the
  failure.
\<close>

theorem invalid_delete_counterexample:
  "node_rdataset (node_of zone_cds_only 0) KNOT_RRTYPE_CDS = Some [[0, 0, 0, 0, 0]] \<and>
   node_rdataset (node_of zone_cds_only 0) KNOT_RRTYPE_CDNSKEY = None \<and>
   map f_code (calls (snd (check_submission lib0 0 (data0 zone_cds_only level_nsec))))
     = [SEM_ERR_CDNSKEY_NONE] \<and>
   node_rdataset (node_of zone_cds_gost 0) KNOT_RRTYPE_CDS
     = Some [[0, 0, 8, 3, 1, 1, 3, 8, 1, 2, 3, 4], [0, 0, 0, 0, 0]] \<and>
   node_rdataset (node_of zone_cds_gost 0) KNOT_RRTYPE_CDNSKEY = Some [[1, 1, 3, 8, 1, 2, 3, 4]] \<and>
   fst (check_submission lib_ds_fails 0 (data0 zone_cds_gost level_nsec)) = KNOT_EINVAL \<and>
   calls (snd (check_submission lib_ds_fails 0 (data0 zone_cds_gost level_nsec))) = []"
  by (simp add: zone_cds_only_def zone_cds_gost_def sub_eval)

subsection \<open>Missing SOA\<close>

lemma cb_handler_cb [simp]: "cb (handler_cb h z ow code info) = cb h"
  by (simp add: handler_cb_def case_prod_beta)

lemma checker_steps_trans:
  assumes "checker_steps h' h''" and "checker_steps h h'"
  shows "checker_steps h h''"
  using assms by (induction rule: checker_steps.induct) (auto intro: checker_steps.intros)

lemma checker_steps_cb: "checker_steps h h' \<Longrightarrow> cb h' = cb h"
  by (induction rule: checker_steps.induct) simp_all

lemma escalatingD: "escalating c \<Longrightarrow> e \<or> f \<Longrightarrow> snd (c (e, f) z ow code info)"
  unfolding escalating_def by blast

lemma fatal_handler_cb:
  assumes "escalating (cb h)" "error h \<or> fatal_error h"
  shows "fatal_error (handler_cb h z ow code info)"
proof -
  have "snd (cb h (error h, fatal_error h) z ow code info)"
    using assms by (rule escalatingD)
  then show ?thesis
    by (simp add: handler_cb_def case_prod_beta)
qed

lemma keeps_handler_cb:
  assumes "keeps_fatal (cb h)"
  shows "fatal_error (handler_cb h z ow code info) = fatal_error h"
proof -
  have "snd (cb h (error h, fatal_error h) z ow code info) = fatal_error h"
    using assms unfolding keeps_fatal_def by blast
  then show ?thesis
    by (simp add: handler_cb_def case_prod_beta)
qed

text \<open>
  The steps of the checker keep \<open>fatal_error\<close> set under an escalating callback, and
  leave it as it was under a callback that returns it as given.
\<close>

lemma checker_steps_fatal:
  assumes "checker_steps h h'" and "escalating (cb h)" and "fatal_error h"
  shows "fatal_error h'"
  using assms
proof (induction rule: checker_steps.induct)
  case (same h)
  then show ?case by simp
next
  case (raise h h')
  then show ?case by simp
next
  case (call h h' z ow code info)
  have "escalating (cb h')" using call.hyps call.prems(1) by (simp add: checker_steps_cb)
  moreover have "fatal_error h'" using call by simp
  ultimately show ?case by (simp add: fatal_handler_cb)
qed

lemma checker_steps_keeps:
  assumes "checker_steps h h'" and "keeps_fatal (cb h)"
  shows "fatal_error h' = fatal_error h"
  using assms
proof (induction rule: checker_steps.induct)
  case (same h)
  then show ?case by simp
next
  case (raise h h')
  then show ?case by simp
next
  case (call h h' z ow code info)
  have "keeps_fatal (cb h')" using call.hyps call.prems by (simp add: checker_steps_cb)
  then have "fatal_error (handler_cb h' z ow code info) = fatal_error h'"
    by (rule keeps_handler_cb)
  then show ?case using call by simp
qed

lemma quiet_refl [simp]: "quiet d d"
  by (simp add: quiet_def checker_steps.same)

lemma quiet_trans: "quiet d d' \<Longrightarrow> quiet d' d'' \<Longrightarrow> quiet d d''"
  by (auto simp: quiet_def intro: checker_steps_trans)

lemma quiet_if: "quiet d a \<Longrightarrow> quiet d b \<Longrightarrow> quiet d (if c then a else b)"
  by simp

lemma quiet_emit:
  assumes "code \<noteq> SEM_ERR_SOA_NONE"
  shows "quiet d (emit d ow code info)"
proof -
  have "checker_steps (handler d) (handler_cb (handler d) (zone d) ow code info)"
    by (rule checker_steps.call) (rule checker_steps.same)
  then show ?thesis
    using assms by (simp add: quiet_def emit_def soa_calls_def)
qed

lemma quiet_emit_after:
  assumes "quiet d d'" "code \<noteq> SEM_ERR_SOA_NONE"
  shows "quiet d (emit d' ow code info)"
proof -
  have "quiet d' (emit d' ow code info)" using assms(2) by (rule quiet_emit)
  with assms(1) show ?thesis by (rule quiet_trans)
qed

lemma quiet_set_error: "quiet d (set_error d)"
proof -
  have "checker_steps (handler d) ((handler d)\<lparr>error := True\<rparr>)"
    by (rule checker_steps.raise) (rule checker_steps.same)
  then show ?thesis
    by (simp add: quiet_def set_error_def soa_calls_def)
qed

lemma quiet_set_error_emit_after:
  assumes "quiet d d'" "code \<noteq> SEM_ERR_SOA_NONE"
  shows "quiet d (emit (set_error d') ow code info)"
proof -
  have "quiet d (set_error d')"
    using assms(1) quiet_set_error by (rule quiet_trans)
  then show ?thesis using assms(2) by (rule quiet_emit_after)
qed

lemma quiet_check_glue:
  "quiet d (snd (check_glue lib node ns_rrs d))"
proof (induction ns_rrs arbitrary: d)
  case Nil
  then show ?case by simp
next
  case (Cons ns_rr rest)
  have step: "quiet d (snd (check_glue lib node rest d'))" if q: "quiet d d'" for d'
  proof -
    have "quiet d' (snd (check_glue lib node rest d'))" by (rule Cons.IH)
    with q show ?thesis by (rule quiet_trans)
  qed
  have rep: "quiet d (if c then emit d ow SEM_ERR_NS_GLUE None else d)" for c ow
    by (intro quiet_if quiet_emit) simp_all
  show ?case
  proof (cases "zone_contents_find_dname lib (zone d) (knot_ns_name ns_rr)")
    case FIND_EOUTOFZONE
    then show ?thesis by (simp add: step)
  next
    case (ZONE_NAME_NOT_FOUND enc)
    then show ?thesis by (simp add: Let_def step rep)
  next
    case (ZONE_NAME_FOUND n)
    then show ?thesis by (simp add: Let_def step rep)
  next
    case (FIND_FAILED ret)
    then show ?thesis by simp
  qed
qed

lemma quiet_check_delegation:
  "quiet d (snd (check_delegation lib node d))"
proof -
  have a: "quiet d (emit d ow SEM_ERR_NS_APEX None)" for ow
    by (rule quiet_emit) simp
  show ?thesis
    by (simp add: check_delegation_def a quiet_check_glue split: option.splits)
qed

lemma quiet_check_cdnskeys:
  "quiet d (snd (check_cdnskeys dnskeys ow cks fl d))"
proof (induction cks arbitrary: fl d)
  case Nil
  then show ?case by simp
next
  case (Cons ck cks)
  have step: "quiet d (snd (check_cdnskeys dnskeys ow cks fl' d'))" if q: "quiet d d'" for d' fl'
  proof -
    have "quiet d' (snd (check_cdnskeys dnskeys ow cks fl' d'))" by (rule Cons.IH)
    with q show ?thesis by (rule quiet_trans)
  qed
  have e: "quiet d (emit d ow SEM_ERR_CDNSKEY_NO_DNSKEY None)"
    by (rule quiet_emit) simp
  show ?case by (simp add: step e)
qed

lemma quiet_check_cdss:
  "quiet d (snd (snd (check_cdss lib ao cks ow cdss fl d)))"
proof (induction cdss arbitrary: fl d)
  case Nil
  then show ?case by simp
next
  case (Cons cs cdss)
  have step: "quiet d (snd (snd (check_cdss lib ao cks ow cdss fl' d')))" if q: "quiet d d'"
    for d' fl'
  proof -
    have "quiet d' (snd (snd (check_cdss lib ao cks ow cdss fl' d')))" by (rule Cons.IH)
    with q show ?thesis by (rule quiet_trans)
  qed
  have e: "quiet d (emit d ow SEM_ERR_CDS_NOT_MATCH None)"
    by (rule quiet_emit) simp
  show ?case
  proof (cases "cds_match lib ao cs (knot_ds_digest_type cs) cks")
    case (Inl ret)
    then show ?thesis by (simp add: Let_def step)
  next
    case (Inr m)
    then show ?thesis by (simp add: Let_def step e)
  qed
qed

lemma quiet_check_submission:
  "quiet d (snd (check_submission lib node d))"
proof (cases "node_rdataset (node_of (zone d) node) KNOT_RRTYPE_CDS")
  case None
  have "quiet d (emit d ow SEM_ERR_CDS_NONE None)" for ow
    by (rule quiet_emit) simp
  then show ?thesis using None
    by (simp add: check_submission_def split: option.splits)
next
  case cds: (Some cdss)
  show ?thesis
  proof (cases "node_rdataset (node_of (zone d) node) KNOT_RRTYPE_CDNSKEY")
    case None
    have "quiet d (emit d ow SEM_ERR_CDNSKEY_NONE None)" for ow
      by (rule quiet_emit) simp
    then show ?thesis using None cds
      by (simp add: check_submission_def)
  next
    case cdk: (Some cdnskeys)
    let ?ow = "owner (node_of (zone d) node)"
    let ?ao = "owner (node_of (zone d) (apex (zone d)))"
    let ?dnskeys = "node_rdataset (node_of (zone d) (apex (zone d))) KNOT_RRTYPE_DNSKEY"
    let ?d1 = "if ?dnskeys = None then emit d ?ow SEM_ERR_DNSKEY_NONE None else d"
    define r1 where "r1 = check_cdnskeys ?dnskeys ?ow cdnskeys False ?d1"
    define r2 where "r2 = check_cdss lib ?ao cdnskeys ?ow cdss False (snd r1)"
    have e1: "check_cdnskeys ?dnskeys ?ow cdnskeys False ?d1 = (fst r1, snd r1)"
      by (simp add: r1_def)
    have e2: "check_cdss lib ?ao cdnskeys ?ow cdss False (snd r1) = (fst r2, fst (snd r2), snd (snd r2))"
      by (simp add: r2_def)
    have q1: "quiet d ?d1"
      by (intro quiet_if quiet_emit) simp_all
    have q2: "quiet ?d1 (snd r1)"
      unfolding r1_def by (rule quiet_check_cdnskeys)
    have q12: "quiet d (snd r1)" by (rule quiet_trans [OF q1 q2])
    have q3: "quiet (snd r1) (snd (snd r2))"
      unfolding r2_def by (rule quiet_check_cdss)
    have q13: "quiet d (snd (snd r2))" by (rule quiet_trans [OF q12 q3])
    have q4: "quiet d (if c then emit (snd (snd r2)) ?ow SEM_ERR_CDNSKEY_INVALID_DELETE None
                      else snd (snd r2))" for c
      by (intro quiet_if quiet_emit_after q13) simp
    have q5: "quiet d (if c' then emit (if c then emit (snd (snd r2)) ?ow SEM_ERR_CDNSKEY_INVALID_DELETE None
                                    else snd (snd r2)) ?ow SEM_ERR_CDNSKEY_NO_CDS None
               else (if c then emit (snd (snd r2)) ?ow SEM_ERR_CDNSKEY_INVALID_DELETE None
                     else snd (snd r2)))" for c c'
      by (intro quiet_if quiet_emit_after q4) simp
    show ?thesis
      unfolding check_submission_present [OF cds cdk e1 e2]
      using q13 q5 by (simp add: Let_def)
  qed
qed

lemma quiet_check_ds_rr:
  "quiet d (check_ds_rr lib beyond ow ds d)"
proof -
  have a: "quiet d (emit d ow SEM_ERR_DS_RDATA_ALG i)" for i
    by (rule quiet_emit) simp
  have b: "quiet d (emit d ow SEM_ERR_DS_RDATA_DIGLEN i)" for i
    by (rule quiet_emit) simp
  show ?thesis by (simp add: check_ds_rr_def Let_def a b)
qed

lemma quiet_fold_check_ds_rr:
  "quiet d (fold (check_ds_rr lib beyond ow) dss d)"
proof (induction dss arbitrary: d)
  case Nil
  then show ?case by simp
next
  case (Cons ds dss)
  have q: "quiet d (check_ds_rr lib beyond ow ds d)"
    by (rule quiet_check_ds_rr)
  have "quiet (check_ds_rr lib beyond ow ds d)
          (fold (check_ds_rr lib beyond ow) dss (check_ds_rr lib beyond ow ds d))"
    by (rule Cons.IH)
  with q show ?case by (simp add: quiet_trans)
qed

lemma quiet_check_ds:
  "quiet d (snd (check_ds lib beyond node d))"
  by (simp add: check_ds_def quiet_fold_check_ds_rr split: option.splits)

lemma quiet_check_cname:
  "quiet d (snd (check_cname node d))"
proof -
  have a: "quiet d (if c then emit (set_error d) ow SEM_ERR_CNAME_EXTRA_RECORDS None else d)"
    for c ow
    by (intro quiet_if quiet_set_error_emit_after quiet_refl) simp
  have b: "quiet d (if c' then emit (set_error (if c then emit (set_error d) ow SEM_ERR_CNAME_EXTRA_RECORDS None else d)) ow SEM_ERR_CNAME_MULTIPLE None
                    else (if c then emit (set_error d) ow SEM_ERR_CNAME_EXTRA_RECORDS None else d))" for c c' ow
    by (intro quiet_if quiet_set_error_emit_after a) simp
  show ?thesis
    by (simp add: check_cname_def Let_def b split: option.splits)
qed

lemma quiet_check_dname:
  "quiet d (snd (check_dname node d))"
proof -
  have a: "quiet d (if c then emit (set_error d) ow SEM_ERR_DNAME_EXTRA_NS None else d)"
    (is "quiet d (?d1 c ow)") for c ow
    by (intro quiet_if quiet_set_error_emit_after quiet_refl) simp
  have b: "quiet d (if c' then emit (set_error (?d1 c ow)) ow SEM_ERR_DNAME_CHILDREN None
                    else ?d1 c ow)"
    (is "quiet d (?d2 c c' ow)") for c c' ow
    by (intro quiet_if quiet_set_error_emit_after a) simp
  have c: "quiet d (if c'' then emit (set_error (?d2 c c' ow)) ow SEM_ERR_DNAME_MULTIPLE None
                    else ?d2 c c' ow)" for c c' c'' ow
    by (intro quiet_if quiet_set_error_emit_after b) simp
  show ?thesis
    by (simp add: check_dname_def Let_def c split: option.splits)
qed

lemma quiet_has_mandatory: "quiet d d' \<Longrightarrow> has_mandatory d \<Longrightarrow> has_mandatory d'"
  by (simp add: quiet_def has_mandatory_def)

text \<open>What \<open>check_soa\<close> does at a node of a zone whose apex has no SOA.\<close>

lemma check_soa_not_apex: "apex (zone d) \<noteq> node \<Longrightarrow> check_soa node d = (KNOT_EOK, d)"
  by (simp add: check_soa_def)

lemma check_soa_ret [simp]: "fst (check_soa node d) = KNOT_EOK"
  by (simp add: check_soa_def split: option.splits)

lemma check_soa_apex:
  assumes "node_rdataset (node_of (zone d) (apex (zone d))) KNOT_RRTYPE_SOA = None"
  shows "zone (snd (check_soa (apex (zone d)) d)) = zone d"
    and "level (snd (check_soa (apex (zone d)) d)) = level d"
    and "soa_calls (snd (check_soa (apex (zone d)) d)) = soa_calls d @ [soa_none_at (zone d)]"
    and "handler (snd (check_soa (apex (zone d)) d))
           = handler_cb ((handler d)\<lparr>error := True\<rparr>) (zone d)
               (owner (node_of (zone d) (apex (zone d)))) SEM_ERR_SOA_NONE None"
proof -
  let ?ow = "owner (node_of (zone d) (apex (zone d)))"
  have r: "snd (check_soa (apex (zone d)) d) = emit (set_error d) ?ow SEM_ERR_SOA_NONE None"
    using assms by (simp add: check_soa_def)
  show "zone (snd (check_soa (apex (zone d)) d)) = zone d"
    by (simp add: r emit_def set_error_def)
  show "level (snd (check_soa (apex (zone d)) d)) = level d"
    by (simp add: r emit_def set_error_def)
  show "soa_calls (snd (check_soa (apex (zone d)) d)) = soa_calls d @ [soa_none_at (zone d)]"
    by (simp add: r emit_def set_error_def soa_calls_def soa_none_at_def)
  show "handler (snd (check_soa (apex (zone d)) d))
           = handler_cb ((handler d)\<lparr>error := True\<rparr>) (zone d) ?ow SEM_ERR_SOA_NONE None"
    by (simp add: r emit_def set_error_def)
qed

text \<open>The checks of the table after \<open>check_soa\<close> are quiet.\<close>

lemma quiet_run_checks:
  assumes "\<And>f l node d. (f, l) \<in> set fs \<Longrightarrow> quiet d (snd (f lib beyond node d))"
  shows "quiet d (snd (run_checks lib beyond fs node d))"
  using assms
proof (induction fs arbitrary: d)
  case Nil
  then show ?case by simp
next
  case (Cons fl fs)
  obtain f l where fl: "fl = (f, l)" by (cases fl)
  have q: "quiet d (snd (f lib beyond node d))"
    by (rule Cons.prems [of f l]) (simp add: fl)
  have rest: "quiet d' (snd (run_checks lib beyond fs node d'))" for d'
    by (rule Cons.IH) (use Cons.prems in auto)
  show ?case
  proof (cases "l AND level d \<noteq> 0")
    case False
    then show ?thesis using rest [of d] by (simp add: fl)
  next
    case True
    obtain ret d' where r: "f lib beyond node d = (ret, d')" by (cases "f lib beyond node d")
    have q': "quiet d d'" using q r by simp
    show ?thesis
    proof (cases "ret = KNOT_EOK")
      case False
      then show ?thesis using True r q' by (simp add: fl)
    next
      case ok: True
      have "quiet d' (snd (run_checks lib beyond fs node d'))"
        by (rule rest)
      with q' have "quiet d (snd (run_checks lib beyond fs node d'))" by (rule quiet_trans)
      then show ?thesis using True r ok by (simp add: fl)
    qed
  qed
qed

lemma quiet_other_checks:
  "quiet d (snd (run_checks (lib :: 'k sem_lib) beyond (tl CHECK_FUNCTIONS) node d))"
proof (rule quiet_run_checks)
  fix f :: "'k sem_lib \<Rightarrow> (nat \<Rightarrow> 16 word) \<Rightarrow> nat \<Rightarrow> semchecks_data \<Rightarrow> knot_ret \<times> semchecks_data"
  fix l node' and d' :: semchecks_data
  assume m: "(f, l) \<in> set (tl CHECK_FUNCTIONS)"
  from m consider
      "f = (\<lambda>lib beyond. check_cname)" | "f = (\<lambda>lib beyond. check_dname)"
    | "f = (\<lambda>lib beyond. check_delegation lib)" | "f = check_ds"
    | "f = (\<lambda>lib beyond. check_submission lib)"
    by (auto simp: CHECK_FUNCTIONS_def)
  then show "quiet d' (snd (f lib beyond node' d'))"
    by cases
       (simp_all add: quiet_check_cname quiet_check_dname quiet_check_delegation quiet_check_ds
          quiet_check_submission)
qed

lemma do_checks_in_tree_unfold:
  assumes "has_mandatory d"
  shows "do_checks_in_tree lib beyond node d =
           run_checks lib beyond (tl CHECK_FUNCTIONS) node (snd (check_soa node d))"
proof -
  have "fst (check_soa node d) = KNOT_EOK" by simp
  then obtain d' where r: "check_soa node d = (KNOT_EOK, d')"
    by (cases "check_soa node d") auto
  show ?thesis
    using assms r
    by (simp add: do_checks_in_tree_def CHECK_FUNCTIONS_def has_mandatory_def)
qed

lemma has_mandatory_or: "MANDATORY AND l \<noteq> 0 \<Longrightarrow> MANDATORY AND (l OR x) \<noteq> 0"
  by (metis bit.conj_disj_distrib or_eq_0_iff)

lemma concat_single_hit:
  "concat (map (\<lambda>k. if k = a then [x] else []) [0..<n]) = (if a < n then [x] else [])"
  by (induction n) auto

lemma check_nsec3param_init:
  assumes "has_mandatory d"
  shows "zone (check_nsec3param rs d) = zone d"
    and "has_mandatory (check_nsec3param rs d)"
    and "soa_calls (check_nsec3param rs d) = soa_calls d"
    and "checker_steps (handler d) (handler (check_nsec3param rs d))"
proof -
  show "zone (check_nsec3param rs d) = zone d"
    by (simp add: check_nsec3param_def Let_def emit_def)
  show "has_mandatory (check_nsec3param rs d)"
    using assms
    by (simp add: check_nsec3param_def Let_def emit_def has_mandatory_def has_mandatory_or)
  show "soa_calls (check_nsec3param rs d) = soa_calls d"
    by (simp add: check_nsec3param_def Let_def emit_def soa_calls_def)
  show "checker_steps (handler d) (handler (check_nsec3param rs d))"
    by (auto simp: check_nsec3param_def Let_def emit_def intro: checker_steps.intros)
qed

lemma sem_checks_init_props:
  shows "zone (sem_checks_init z optional h t) = z"
    and "has_mandatory (sem_checks_init z optional h t)"
    and "soa_calls (sem_checks_init z optional h t) = []"
    and "checker_steps h (handler (sem_checks_init z optional h t))"
proof -
  let ?d0 = "\<lparr>zone = z, handler = h, next_nsec = apex z, level = MANDATORY, time = t, calls = []\<rparr>"
  have m0: "MANDATORY AND MANDATORY \<noteq> (0 :: check_level_t)"
    by (simp add: MANDATORY_def)
  have hm: "has_mandatory \<lparr>zone = z, handler = h, next_nsec = apex z,
              level = (MANDATORY OR OPTIONAL) OR NSEC3, time = t, calls = []\<rparr>"
    using m0 by (simp add: has_mandatory_def has_mandatory_or)
  note n = check_nsec3param_init [OF hm]
  show "zone (sem_checks_init z optional h t) = z"
    by (simp add: sem_checks_init_def Let_def n split: option.splits)
  show "has_mandatory (sem_checks_init z optional h t)"
    using m0 n(2) by (simp add: sem_checks_init_def Let_def has_mandatory_def has_mandatory_or
                      split: option.splits)
  show "soa_calls (sem_checks_init z optional h t) = []"
    using n(3) by (simp add: sem_checks_init_def Let_def soa_calls_def split: option.splits)
  show "checker_steps h (handler (sem_checks_init z optional h t))"
    using n(4) by (simp add: sem_checks_init_def Let_def checker_steps.same split: option.splits)
qed

lemma verify_dnssec_quiet:
  shows "soa_calls (snd (verify_dnssec lib d)) = soa_calls d"
    and "checker_steps (handler d) (handler (snd (verify_dnssec lib d)))"
proof -
  have c: "err_dnssec2sem ret \<noteq> SEM_ERR_SOA_NONE" for ret
    by (simp add: err_dnssec2sem_def split: knot_ret.splits)
  have q: "quiet d (snd (verify_dnssec lib d))"
    by (auto simp: verify_dnssec_def c intro: quiet_emit split: prod.splits option.splits)
  show "soa_calls (snd (verify_dnssec lib d)) = soa_calls d"
    using q by (simp add: quiet_def)
  show "checker_steps (handler d) (handler (snd (verify_dnssec lib d)))"
    using q by (simp add: quiet_def)
qed

lemma do_checks_in_tree_step:
  assumes nosoa: "node_rdataset (node_of (zone d) (apex (zone d))) KNOT_RRTYPE_SOA = None"
    and hm: "has_mandatory d"
  shows "zone (snd (do_checks_in_tree lib beyond node d)) = zone d"
    and "has_mandatory (snd (do_checks_in_tree lib beyond node d))"
    and "soa_calls (snd (do_checks_in_tree lib beyond node d))
           = soa_calls d @ (if node = apex (zone d) then [soa_none_at (zone d)] else [])"
    and "checker_steps (handler d) (handler (snd (do_checks_in_tree lib beyond node d)))"
    and "escalating (cb (handler d)) \<Longrightarrow> node = apex (zone d) \<or> fatal_error (handler d) \<Longrightarrow>
           fatal_error (handler (snd (do_checks_in_tree lib beyond node d)))"
proof -
  let ?ow = "owner (node_of (zone d) (apex (zone d)))"
  let ?d1 = "snd (check_soa node d)"
  let ?d2 = "snd (do_checks_in_tree lib beyond node d)"
  have d2: "?d2 = snd (run_checks lib beyond (tl CHECK_FUNCTIONS) node ?d1)"
    by (simp add: do_checks_in_tree_unfold [OF hm])
  have h1: "handler ?d1 = handler_cb ((handler d)\<lparr>error := True\<rparr>) (zone d) ?ow SEM_ERR_SOA_NONE None"
    if "node = apex (zone d)"
    using check_soa_apex(4) [OF nosoa] that by simp
  have st1: "checker_steps (handler d) (handler ?d1)"
  proof (cases "node = apex (zone d)")
    case True
    have "checker_steps (handler d)
            (handler_cb ((handler d)\<lparr>error := True\<rparr>) (zone d) ?ow SEM_ERR_SOA_NONE None)"
      by (intro checker_steps.call checker_steps.raise checker_steps.same)
    then show ?thesis using h1 [OF True] by simp
  next
    case False
    then show ?thesis by (simp add: check_soa_not_apex checker_steps.same)
  qed
  have s1: "zone ?d1 = zone d \<and> level ?d1 = level d \<and>
            soa_calls ?d1 = soa_calls d @ (if node = apex (zone d) then [soa_none_at (zone d)] else [])"
  proof (cases "node = apex (zone d)")
    case True
    then show ?thesis using check_soa_apex(1,2,3) [OF nosoa] by simp
  next
    case False
    then show ?thesis by (simp add: check_soa_not_apex)
  qed
  have q: "quiet ?d1 ?d2" unfolding d2 by (rule quiet_other_checks)
  have st2: "checker_steps (handler ?d1) (handler ?d2)" using q by (simp add: quiet_def)
  show "zone ?d2 = zone d" using q s1 by (simp add: quiet_def)
  show "has_mandatory ?d2" using q s1 hm by (simp add: quiet_def has_mandatory_def)
  show "soa_calls ?d2 = soa_calls d @ (if node = apex (zone d) then [soa_none_at (zone d)] else [])"
    using q s1 by (simp add: quiet_def)
  show "checker_steps (handler d) (handler ?d2)"
    using st2 st1 by (rule checker_steps_trans)
  show "fatal_error (handler ?d2)"
    if esc: "escalating (cb (handler d))" and c: "node = apex (zone d) \<or> fatal_error (handler d)"
  proof -
    have e1: "escalating (cb (handler ?d1))"
      using esc checker_steps_cb [OF st1] by simp
    have f1: "fatal_error (handler ?d1)"
    proof (cases "node = apex (zone d)")
      case True
      have "fatal_error (handler_cb ((handler d)\<lparr>error := True\<rparr>) (zone d) ?ow SEM_ERR_SOA_NONE None)"
        by (rule fatal_handler_cb) (use esc in simp_all)
      then show ?thesis using h1 [OF True] by simp
    next
      case False
      then show ?thesis using c by (simp add: check_soa_not_apex)
    qed
    show ?thesis using st2 e1 f1 by (rule checker_steps_fatal)
  qed
qed

lemma zone_tree_apply_walk:
  assumes "node_rdataset (node_of (zone d) (apex (zone d))) KNOT_RRTYPE_SOA = None"
    and "has_mandatory d"
    and "fst (zone_tree_apply (do_checks_in_tree lib beyond) ns d) = KNOT_EOK"
  shows "soa_calls (snd (zone_tree_apply (do_checks_in_tree lib beyond) ns d))
           = soa_calls d @ concat (map (\<lambda>k. if k = apex (zone d) then [soa_none_at (zone d)] else []) ns)
         \<and> checker_steps (handler d)
             (handler (snd (zone_tree_apply (do_checks_in_tree lib beyond) ns d)))
         \<and> (escalating (cb (handler d)) \<and> (apex (zone d) \<in> set ns \<or> fatal_error (handler d)) \<longrightarrow>
              fatal_error (handler (snd (zone_tree_apply (do_checks_in_tree lib beyond) ns d))))"
  using assms
proof (induction ns arbitrary: d)
  case Nil
  then show ?case by (simp add: checker_steps.same)
next
  case (Cons n ns)
  obtain ret d' where r: "do_checks_in_tree lib beyond n d = (ret, d')"
    by (cases "do_checks_in_tree lib beyond n d")
  note st = do_checks_in_tree_step [OF Cons.prems(1,2), where lib = lib and beyond = beyond and node = n, unfolded r snd_conv]
  have ok: "ret = KNOT_EOK"
    using Cons.prems(3) r by (simp split: if_splits)
  have walk: "zone_tree_apply (do_checks_in_tree lib beyond) (n # ns) d
                = zone_tree_apply (do_checks_in_tree lib beyond) ns d'"
    using r ok by simp
  let ?res = "snd (zone_tree_apply (do_checks_in_tree lib beyond) ns d')"
  have ih: "soa_calls ?res
           = soa_calls d' @ concat (map (\<lambda>k. if k = apex (zone d') then [soa_none_at (zone d')] else []) ns)
         \<and> checker_steps (handler d') (handler ?res)
         \<and> (escalating (cb (handler d')) \<and> (apex (zone d') \<in> set ns \<or> fatal_error (handler d')) \<longrightarrow>
              fatal_error (handler ?res))"
  proof (rule Cons.IH)
    show "node_rdataset (node_of (zone d') (apex (zone d'))) KNOT_RRTYPE_SOA = None"
      using Cons.prems(1) st(1) by simp
    show "has_mandatory d'" by (rule st(2))
    show "fst (zone_tree_apply (do_checks_in_tree lib beyond) ns d') = KNOT_EOK"
      using Cons.prems(3) walk by simp
  qed
  have z': "zone d' = zone d" by (rule st(1))
  have cb': "cb (handler d') = cb (handler d)" using st(4) by (rule checker_steps_cb)
  have a: "soa_calls ?res
             = soa_calls d @ concat (map (\<lambda>k. if k = apex (zone d) then [soa_none_at (zone d)] else []) (n # ns))"
    using ih [unfolded z'] st(3) by simp
  have b: "checker_steps (handler d) (handler ?res)"
    using ih st(4) by (blast intro: checker_steps_trans)
  have c: "fatal_error (handler ?res)"
    if esc: "escalating (cb (handler d))"
      and m: "apex (zone d) \<in> set (n # ns) \<or> fatal_error (handler d)"
  proof (cases "n = apex (zone d) \<or> fatal_error (handler d)")
    case True
    have "fatal_error (handler d')" using st(5) [OF esc True] .
    then show ?thesis using ih esc cb' by simp
  next
    case False
    then have "apex (zone d') \<in> set ns" using m z' by auto
    then show ?thesis using ih esc cb' by simp
  qed
  show ?case
    unfolding walk using a b c by blast
qed

text \<open>
  C1 (amended). For every zone whose apex is one of its nodes and carries no SOA set, and
  every handler: if the tree walk succeeds, \<open>sem_checks_process\<close> makes exactly one
  \<open>SOA_NONE\<close> callback, at the apex owner. \<open>check_soa\<close> raises the handler's \<open>error\<close>
  flag before that callback, which therefore runs on the handler with \<open>error\<close> set.
  The checker itself never writes \<open>fatal_error\<close>: all it does to the handler is to
  raise \<open>error\<close> and to invoke the callback, so that under a callback that returns
  \<open>fatal_error\<close> as it was given it the handler comes back with \<open>fatal_error\<close> as it
  went in, and when it was clear and no DNSSEC verification follows the call returns
  \<open>KNOT_EOK\<close>. Under a callback that turns a raised \<open>error\<close> flag into
  \<open>fatal_error\<close> and keeps \<open>fatal_error\<close> once set, the handler comes back with
  \<open>fatal_error\<close> set and the call returns \<open>KNOT_ESEMCHECK\<close>.
\<close>

theorem sem_checks_process_no_soa:
  assumes wf: "apex z < length (nodes z)"
    and nosoa: "node_rdataset (node_of z (apex z)) KNOT_RRTYPE_SOA = None"
    and walk: "fst (zone_contents_apply z (do_checks_in_tree lib beyond)
                      (sem_checks_init z optional h t)) = KNOT_EOK"
  shows "(case sem_checks_process lib beyond (Some z) optional (Some h) t of
            (ret, h', cs) \<Rightarrow>
              filter (\<lambda>f. f_code f = SEM_ERR_SOA_NONE) cs
                = [\<lparr>f_owner = owner (node_of z (apex z)), f_code = SEM_ERR_SOA_NONE,
                    f_info = None\<rparr>] \<and>
              (\<exists>hh. h' = Some hh \<and> checker_steps h hh \<and>
                 (escalating (cb h) \<longrightarrow> fatal_error hh \<and> ret = KNOT_ESEMCHECK) \<and>
                 (keeps_fatal (cb h) \<longrightarrow> fatal_error hh = fatal_error h) \<and>
                 (keeps_fatal (cb h) \<and> \<not> fatal_error h \<and> \<not> with_dnssec z optional
                    \<longrightarrow> ret = KNOT_EOK))) \<and>
         (zone d = z \<longrightarrow>
            handler (snd (check_soa (apex z) d))
              = handler_cb ((handler d)\<lparr>error := True\<rparr>) z (owner (node_of z (apex z)))
                  SEM_ERR_SOA_NONE None)"
proof -
  let ?d1 = "sem_checks_init z optional h t"
  let ?r = "zone_contents_apply z (do_checks_in_tree lib beyond) ?d1"
  let ?one = "[\<lparr>f_owner = owner (node_of z (apex z)), f_code = SEM_ERR_SOA_NONE,
                 f_info = None\<rparr>]"
  note i = sem_checks_init_props [where z = z and optional = optional and h = h and t = t]
  have a: "node_rdataset (node_of (zone ?d1) (apex (zone ?d1))) KNOT_RRTYPE_SOA = None"
    using nosoa i(1) by simp
  have cb1: "cb (handler ?d1) = cb h" using i(4) by (rule checker_steps_cb)
  have w: "fst (zone_tree_apply (do_checks_in_tree lib beyond) [0..<length (nodes z)] ?d1) = KNOT_EOK"
    using walk by (simp add: zone_contents_apply_def)
  note k = zone_tree_apply_walk [OF a i(2) w, unfolded i(1) i(3)]
  obtain ret d2 where r: "?r = (ret, d2)" by (cases ?r)
  have ok: "ret = KNOT_EOK" using walk r by simp
  have c2: "soa_calls d2 = [soa_none_at z]"
    using k wf r by (simp add: zone_contents_apply_def concat_single_hit)
  have s2: "checker_steps h (handler d2)"
  proof -
    have "checker_steps (handler ?d1) (handler d2)"
      using k r by (simp add: zone_contents_apply_def)
    then show ?thesis using i(4) by (rule checker_steps_trans)
  qed
  have f2: "fatal_error (handler d2)" if "escalating (cb h)"
    using k wf r that cb1 by (simp add: zone_contents_apply_def)
  obtain ret3 d3 where v: "verify_dnssec lib d2 = (ret3, d3)" by (cases "verify_dnssec lib d2")
  have c3: "soa_calls d3 = [soa_none_at z]"
    using verify_dnssec_quiet(1) [where lib = lib and d = d2] v c2 by simp
  have s3: "checker_steps h (handler d3)"
  proof -
    have "checker_steps (handler d2) (handler d3)"
      using verify_dnssec_quiet(2) [where lib = lib and d = d2] v by simp
    then show ?thesis using s2 by (rule checker_steps_trans)
  qed
  have one: "[soa_none_at z] = ?one" by (simp add: soa_none_at_def)
  have k2: "fatal_error (handler d2) = fatal_error h" if "keeps_fatal (cb h)"
    using s2 that by (rule checker_steps_keeps)
  have k3: "fatal_error (handler d3) = fatal_error h" if "keeps_fatal (cb h)"
    using s3 that by (rule checker_steps_keeps)
  have p: "sem_checks_process lib beyond (Some z) optional (Some h) t =
             (if fatal_error (handler d2) then (KNOT_ESEMCHECK, Some (handler d2), calls d2)
              else if with_dnssec z optional then (ret3, Some (handler d3), calls d3)
              else (KNOT_EOK, Some (handler d2), calls d2))"
    using r ok v by (simp add: sem_checks_process_def)
  have main: "case sem_checks_process lib beyond (Some z) optional (Some h) t of
            (ret, h', cs) \<Rightarrow>
              filter (\<lambda>f. f_code f = SEM_ERR_SOA_NONE) cs = ?one \<and>
              (\<exists>hh. h' = Some hh \<and> checker_steps h hh \<and>
                 (escalating (cb h) \<longrightarrow> fatal_error hh \<and> ret = KNOT_ESEMCHECK) \<and>
                 (keeps_fatal (cb h) \<longrightarrow> fatal_error hh = fatal_error h) \<and>
                 (keeps_fatal (cb h) \<and> \<not> fatal_error h \<and> \<not> with_dnssec z optional
                    \<longrightarrow> ret = KNOT_EOK))"
  proof (cases "fatal_error (handler d2)")
    case True
    then show ?thesis
      using c2 one k2 s2 by (simp add: p soa_calls_def)
  next
    case nf: False
    have ne: "\<not> escalating (cb h)" using f2 nf by blast
    show ?thesis
    proof (cases "with_dnssec z optional")
      case True
      then show ?thesis
        using nf ne c3 one k3 s3 by (simp add: p soa_calls_def)
    next
      case False
      then show ?thesis
        using nf ne c2 one k2 s2 by (simp add: p soa_calls_def)
    qed
  qed
  have soa: "handler (snd (check_soa (apex z) d))
              = handler_cb ((handler d)\<lparr>error := True\<rparr>) z (owner (node_of z (apex z)))
                  SEM_ERR_SOA_NONE None"
    if "zone d = z"
    using check_soa_apex(4) [of d] nosoa that by simp
  show ?thesis
    using main soa by blast
qed

text \<open>The definitions that evaluate the entry point on the test inputs.\<close>

lemmas sem_eval =
  sem_checks_process_def sem_checks_init_def with_dnssec_def zone_contents_apply_def
  do_checks_in_tree_def CHECK_FUNCTIONS_def check_soa_def check_cname_def check_dname_def
  check_delegation_def check_ds_def check_submission_def set_error_def emit_def handler_cb_def
  node_rdataset_def node_of_def node_rrtype_exists_def rrset_count_def knot_ns_name_def
  MANDATORY_def OPTIONAL_def NSEC_def NSEC3_def
  zone_no_soa_def zone_apex_def handler0_def handler_esc_def lib0_def Let_def

theorem sem_checks_process_no_soa_witness:
  "fst (sem_checks_process lib0 (\<lambda>i. 0) (Some zone_no_soa) SEMCHECK_MANDATORY_ONLY
          (Some handler_esc) 0) = KNOT_ESEMCHECK \<and>
   map_option fatal_error
     (fst (snd (sem_checks_process lib0 (\<lambda>i. 0) (Some zone_no_soa) SEMCHECK_MANDATORY_ONLY
                  (Some handler_esc) 0))) = Some True \<and>
   filter (\<lambda>f. f_code f = SEM_ERR_SOA_NONE)
     (snd (snd (sem_checks_process lib0 (\<lambda>i. 0) (Some zone_no_soa) SEMCHECK_MANDATORY_ONLY
                  (Some handler_esc) 0)))
     = [\<lparr>f_owner = [0], f_code = SEM_ERR_SOA_NONE, f_info = None\<rparr>] \<and>
   fst (sem_checks_process lib0 (\<lambda>i. 0) (Some zone_no_soa) SEMCHECK_MANDATORY_ONLY
          (Some handler0) 0) = KNOT_EOK \<and>
   map_option fatal_error
     (fst (snd (sem_checks_process lib0 (\<lambda>i. 0) (Some zone_no_soa) SEMCHECK_MANDATORY_ONLY
                  (Some handler0) 0))) = Some False \<and>
   filter (\<lambda>f. f_code f = SEM_ERR_SOA_NONE)
     (snd (snd (sem_checks_process lib0 (\<lambda>i. 0) (Some zone_no_soa) SEMCHECK_MANDATORY_ONLY
                  (Some handler0) 0)))
     = [\<lparr>f_owner = [0], f_code = SEM_ERR_SOA_NONE, f_info = None\<rparr>] \<and>
   error (handler (snd (check_soa (apex zone_no_soa)
                          (data0 zone_no_soa MANDATORY))))"
proof -
  have wf: "apex zone_no_soa < length (nodes zone_no_soa)"
    by (simp add: zone_no_soa_def zone_apex_def)
  have nosoa: "node_rdataset (node_of zone_no_soa (apex zone_no_soa)) KNOT_RRTYPE_SOA = None"
    by (simp add: zone_no_soa_def zone_apex_def node_of_def node_rdataset_def)
  have esc: "escalating (cb handler_esc)"
    by (simp add: escalating_def handler_esc_def)
  have nofatal: "\<not> fatal_error handler_esc" "\<not> fatal_error handler0"
    by (simp_all add: handler_esc_def handler0_def)
  have keeps: "keeps_fatal (cb handler0)"
    by (simp add: keeps_fatal_def handler0_def)
  have nd: "\<not> with_dnssec zone_no_soa SEMCHECK_MANDATORY_ONLY"
    by (simp add: with_dnssec_def)
  have walk1: "fst (zone_contents_apply zone_no_soa (do_checks_in_tree lib0 (\<lambda>i. 0))
                      (sem_checks_init zone_no_soa SEMCHECK_MANDATORY_ONLY handler_esc 0)) = KNOT_EOK"
    by (simp add: sem_eval)
  have walk2: "fst (zone_contents_apply zone_no_soa (do_checks_in_tree lib0 (\<lambda>i. 0))
                      (sem_checks_init zone_no_soa SEMCHECK_MANDATORY_ONLY handler0 0)) = KNOT_EOK"
    by (simp add: sem_eval)
  have ow: "owner (node_of zone_no_soa (apex zone_no_soa)) = [0]"
    by (simp add: zone_no_soa_def zone_apex_def node_of_def)
  have z: "zone (data0 zone_no_soa MANDATORY) = zone_no_soa"
    by (simp add: data0_def)
  have e0: "error (handler_cb ((handler (data0 zone_no_soa MANDATORY))\<lparr>error := True\<rparr>)
                     zone_no_soa [0] SEM_ERR_SOA_NONE None)"
    by (simp add: handler_cb_def data0_def handler0_def)
  note t1 = sem_checks_process_no_soa
    [where d = "data0 zone_no_soa MANDATORY", OF wf nosoa walk1, unfolded ow]
  note t2 = sem_checks_process_no_soa
    [where d = "data0 zone_no_soa MANDATORY", OF wf nosoa walk2, unfolded ow]
  have a: "fst (sem_checks_process lib0 (\<lambda>i. 0) (Some zone_no_soa) SEMCHECK_MANDATORY_ONLY
          (Some handler_esc) 0) = KNOT_ESEMCHECK \<and>
   map_option fatal_error
     (fst (snd (sem_checks_process lib0 (\<lambda>i. 0) (Some zone_no_soa) SEMCHECK_MANDATORY_ONLY
                  (Some handler_esc) 0))) = Some True \<and>
   filter (\<lambda>f. f_code f = SEM_ERR_SOA_NONE)
     (snd (snd (sem_checks_process lib0 (\<lambda>i. 0) (Some zone_no_soa) SEMCHECK_MANDATORY_ONLY
                  (Some handler_esc) 0)))
     = [\<lparr>f_owner = [0], f_code = SEM_ERR_SOA_NONE, f_info = None\<rparr>]"
    using t1 esc by (auto split: prod.splits)
  have b: "fst (sem_checks_process lib0 (\<lambda>i. 0) (Some zone_no_soa) SEMCHECK_MANDATORY_ONLY
          (Some handler0) 0) = KNOT_EOK \<and>
   map_option fatal_error
     (fst (snd (sem_checks_process lib0 (\<lambda>i. 0) (Some zone_no_soa) SEMCHECK_MANDATORY_ONLY
                  (Some handler0) 0))) = Some False \<and>
   filter (\<lambda>f. f_code f = SEM_ERR_SOA_NONE)
     (snd (snd (sem_checks_process lib0 (\<lambda>i. 0) (Some zone_no_soa) SEMCHECK_MANDATORY_ONLY
                  (Some handler0) 0)))
     = [\<lparr>f_owner = [0], f_code = SEM_ERR_SOA_NONE, f_info = None\<rparr>]"
    using t2 keeps nofatal(2) nd by (auto split: prod.splits)
  have c: "error (handler (snd (check_soa (apex zone_no_soa) (data0 zone_no_soa MANDATORY))))"
    using t2 z e0 by simp
  show ?thesis
    using a b c by blast
qed

text \<open>
  The claim C1 as stated fails for a handler whose callback leaves the flags alone: on
  the zone whose apex has only an NS set the walk succeeds, one \<open>SOA_NONE\<close> is
  reported with \<open>error\<close> raised, \<open>fatal_error\<close> stays clear and the call returns
  \<open>KNOT_EOK\<close>.
\<close>

theorem sem_checks_process_no_soa_counterexample:
  "node_rdataset (node_of zone_no_soa (apex zone_no_soa)) KNOT_RRTYPE_SOA = None \<and>
   fst (zone_contents_apply zone_no_soa (do_checks_in_tree lib0 (\<lambda>i. 0))
          (sem_checks_init zone_no_soa SEMCHECK_MANDATORY_ONLY handler0 0)) = KNOT_EOK \<and>
   fst (sem_checks_process lib0 (\<lambda>i. 0) (Some zone_no_soa) SEMCHECK_MANDATORY_ONLY
          (Some handler0) 0) = KNOT_EOK \<and>
   map_option fatal_error
     (fst (snd (sem_checks_process lib0 (\<lambda>i. 0) (Some zone_no_soa) SEMCHECK_MANDATORY_ONLY
                  (Some handler0) 0))) = Some False \<and>
   map_option error
     (fst (snd (sem_checks_process lib0 (\<lambda>i. 0) (Some zone_no_soa) SEMCHECK_MANDATORY_ONLY
                  (Some handler0) 0))) = Some True \<and>
   snd (snd (sem_checks_process lib0 (\<lambda>i. 0) (Some zone_no_soa) SEMCHECK_MANDATORY_ONLY
               (Some handler0) 0))
     = [\<lparr>f_owner = [0], f_code = SEM_ERR_SOA_NONE, f_info = None\<rparr>]"
  by (simp add: sem_eval)

section \<open>Properties of the DoQ client\<close>

subsection \<open>Callbacks and the packet reader\<close>

lemma smod4: "((x::int) smod 4 \<noteq> 0) = (x mod 4 \<noteq> 0)"
  by (auto simp: signed_modulo_int_def sgn_if abs_if zmod_zminus1_eq_if split: if_splits)

lemma ngtcp2_call_ret:
  "fst (ngtcp2_call ext events lib_ret ctx) =
     (if fst (run_callbacks ext events ctx) \<noteq> 0 then NGTCP2_ERR_CALLBACK_FAILURE else lib_ret)"
  by (simp add: ngtcp2_call_def split: prod.splits)

lemma ngtcp2_call_ctx [simp]:
  "snd (ngtcp2_call ext events lib_ret ctx) = snd (run_callbacks ext events ctx)"
  by (simp add: ngtcp2_call_def split: prod.splits)

text \<open>
  In \<open>quic_recv\<close> the tests after a failed \<open>ngtcp2_conn_read_pkt\<close> look at
  \<open>nwrite\<close>, the positive count of \<open>recvmsg\<close>; neither holds, so the context is
  the one the callbacks left.
\<close>

lemma quic_recv_read:
  assumes "datagram_read r"
  shows "quic_recv ext r ctx =
           (if fst (ngtcp2_call ext (r_events r) (r_ret r) (with_ecn r ctx)) \<noteq> 0
            then KNOT_NET_ERECV else KNOT_EOK,
            snd (run_callbacks ext (r_events r) (with_ecn r ctx)))"
proof -
  obtain ecn errno where e: "quic_get_ecn (r_cmsgs r) (r_family r) = (ecn, errno)"
    by (cases "quic_get_ecn (r_cmsgs r) (r_family r)")
  obtain ret ctx2 where c: "ngtcp2_call ext (r_events r) (r_ret r) (ctx\<lparr>pi_ecn := ecn\<rparr>) = (ret, ctx2)"
    by (cases "ngtcp2_call ext (r_events r) (r_ret r) (ctx\<lparr>pi_ecn := ecn\<rparr>)")
  have pos: "0 < r_nwrite r" and acc: "\<not> (ecn = 0 \<and> errno \<noteq> None)"
    using assms e by (simp_all add: datagram_read_def)
  have n1: "r_nwrite r \<noteq> NGTCP2_ERR_DROP_CONN"
    using pos by (simp add: NGTCP2_ERR_DROP_CONN_def)
  have n2: "\<not> ngtcp2_err_is_fatal (r_nwrite r)"
    using pos by (simp add: ngtcp2_err_is_fatal_def NGTCP2_ERR_FATAL_def)
  have c2: "ctx2 = snd (run_callbacks ext (r_events r) (ctx\<lparr>pi_ecn := ecn\<rparr>))"
    using c ngtcp2_call_ctx [of ext "r_events r" "r_ret r" "ctx\<lparr>pi_ecn := ecn\<rparr>"] by simp
  show ?thesis
    using pos acc n1 n2 e c c2
    by (auto simp: quic_recv_def Let_def with_ecn_def)
qed

lemma quic_recv_not_read:
  assumes "\<not> datagram_read r"
  shows "state (snd (quic_recv ext r ctx)) = state ctx"
    and "stream (snd (quic_recv ext r ctx)) = stream ctx"
    and "last_err (snd (quic_recv ext r ctx)) = last_err ctx"
    and "tls (snd (quic_recv ext r ctx)) = tls ctx"
    and "timestamp (snd (quic_recv ext r ctx)) = timestamp ctx"
  using assms
  by (auto simp: quic_recv_def datagram_read_def Let_def split: prod.splits)

lemma run_callbacks_append_fail:
  assumes "fst (run_callbacks ext pre ctx) = 0"
    and "fst (quic_callback ext e (snd (run_callbacks ext pre ctx))) \<noteq> 0"
  shows "run_callbacks ext (pre @ e # post) ctx
           = quic_callback ext e (snd (run_callbacks ext pre ctx))"
  using assms
proof (induction pre arbitrary: ctx)
  case Nil
  then show ?case by (auto split: prod.splits)
next
  case (Cons a pre)
  obtain ret c where a: "quic_callback ext a ctx = (ret, c)"
    by (cases "quic_callback ext a ctx")
  have r0: "ret = 0" using Cons.prems(1) a by (simp split: if_splits)
  show ?case
    using Cons.IH [of c] Cons.prems a r0 by simp
qed

text \<open>
  C10. When stream data arrives for a stream other than the context's current one,
  \<open>recv_stream_data_cb\<close> returns 0 and the context is unchanged: nothing is appended
  to the inbound buffer, no message is completed, and the time of the last activity is
  not updated.
\<close>

theorem recv_stream_data_other_stream:
  "stream_id \<noteq> id' (stream ctx) \<Longrightarrow> recv_stream_data_cb ext now stream_id data ctx = (0, ctx)"
  by (simp add: recv_stream_data_cb_def)

theorem recv_stream_data_other_stream_witness:
  "recv_stream_data_cb ext0 77 4 [1, 2, 3] ctx0 = (0, ctx0) \<and>
   recv_stream_data_cb ext0 77 0 [1, 2, 3] ctx0 \<noteq> (0, ctx0)"
proof -
  have "(4::int) \<noteq> id' (stream ctx0)" by (simp add: ctx0_def)
  from recv_stream_data_other_stream [OF this, of ext0 77 "[1, 2, 3]"]
  show ?thesis
    by (simp add: recv_stream_data_cb_def ctx0_def ext0_def)
qed

text \<open>
  C8 (the code departs from the claim). \<open>stream_open_cb\<close> rejects every stream whose id
  is not congruent to 0 modulo 4: it fails with \<open>NGTCP2_ERR_CALLBACK_FAILURE\<close> and
  leaves an application close error with code \<open>DOQ_PROTOCOL_ERROR\<close> and reason length
  26; a stream whose id is congruent to 0 modulo 4 is accepted and the context,
  \<open>last_err\<close> included, is unchanged. When the library delivers such a rejected stream
  while \<open>quic_recv\<close> reads a datagram (after callbacks that succeeded), \<open>quic_recv\<close>
  returns \<open>KNOT_NET_ERECV\<close> and the context holds that close error. But the reason the
  close error holds is the address of the callback's own array \<open>message[]\<close>: once the
  callback has returned, and so after \<open>quic_recv\<close>, it points to an array whose lifetime
  has ended, and the context holds the bytes of "Server can't open streams." nowhere.
\<close>

theorem stream_open_reason_dangles:
  "(stream_id mod 4 \<noteq> 0 \<longrightarrow>
      stream_open_cb stream_id ctx
        = (NGTCP2_ERR_CALLBACK_FAILURE, ctx\<lparr>last_err := cant_open_error\<rparr>) \<and>
      NGTCP2_ERR_CALLBACK_FAILURE \<noteq> 0 \<and>
      reason (last_err (snd (stream_open_cb stream_id ctx))) = Some ENDED) \<and>
   (stream_id mod 4 = 0 \<longrightarrow> stream_open_cb stream_id ctx = (0, ctx)) \<and>
   (stream_id mod 4 \<noteq> 0 \<and> datagram_read r \<and>
    r_events r = pre @ STREAM_OPEN stream_id # post \<and>
    fst (run_callbacks ext pre (with_ecn r ctx)) = 0 \<longrightarrow>
      fst (quic_recv ext r ctx) = KNOT_NET_ERECV \<and>
      last_err (snd (quic_recv ext r ctx)) = cant_open_error \<and>
      reason (last_err (snd (quic_recv ext r ctx))) = Some ENDED)"
proof -
  have rej: "stream_open_cb stream_id c
        = (NGTCP2_ERR_CALLBACK_FAILURE, c\<lparr>last_err := cant_open_error\<rparr>)"
    if "stream_id mod 4 \<noteq> 0" for c
    using that
    by (simp add: stream_open_cb_def smod4 set_application_error_def end_lifetime_def
          cant_open_error_def server_cant_open_streams_def Let_def)
  have nz: "NGTCP2_ERR_CALLBACK_FAILURE \<noteq> 0"
    by (simp add: NGTCP2_ERR_CALLBACK_FAILURE_def)
  have en: "reason cant_open_error = Some ENDED"
    by (simp add: cant_open_error_def)
  have acc: "stream_open_cb stream_id ctx = (0, ctx)" if "stream_id mod 4 = 0"
    using that by (simp add: stream_open_cb_def smod4)
  have drv: "fst (quic_recv ext r ctx) = KNOT_NET_ERECV \<and>
             last_err (snd (quic_recv ext r ctx)) = cant_open_error"
    if m: "stream_id mod 4 \<noteq> 0" and d: "datagram_read r"
      and ev: "r_events r = pre @ STREAM_OPEN stream_id # post"
      and p: "fst (run_callbacks ext pre (with_ecn r ctx)) = 0"
  proof -
    let ?c = "snd (run_callbacks ext pre (with_ecn r ctx))"
    have f: "fst (quic_callback ext (STREAM_OPEN stream_id) ?c) \<noteq> 0"
      using rej [OF m, of ?c] nz by simp
    have run: "run_callbacks ext (r_events r) (with_ecn r ctx)
                 = (NGTCP2_ERR_CALLBACK_FAILURE, ?c\<lparr>last_err := cant_open_error\<rparr>)"
      unfolding ev using run_callbacks_append_fail [OF p f, of post] rej [OF m, of ?c] by simp
    show ?thesis
      using nz by (simp add: quic_recv_read [OF d] ngtcp2_call_ret run)
  qed
  have rej': "stream_open_cb stream_id ctx
        = (NGTCP2_ERR_CALLBACK_FAILURE, ctx\<lparr>last_err := cant_open_error\<rparr>) \<and>
      NGTCP2_ERR_CALLBACK_FAILURE \<noteq> 0 \<and>
      reason (last_err (snd (stream_open_cb stream_id ctx))) = Some ENDED"
    if "stream_id mod 4 \<noteq> 0"
    using rej [OF that, of ctx] nz en by simp
  have drv': "fst (quic_recv ext r ctx) = KNOT_NET_ERECV \<and>
      last_err (snd (quic_recv ext r ctx)) = cant_open_error \<and>
      reason (last_err (snd (quic_recv ext r ctx))) = Some ENDED"
    if "stream_id mod 4 \<noteq> 0 \<and> datagram_read r \<and>
        r_events r = pre @ STREAM_OPEN stream_id # post \<and>
        fst (run_callbacks ext pre (with_ecn r ctx)) = 0"
    using drv that en by simp
  show ?thesis
    using rej' acc drv' by blast
qed

theorem stream_open_reason_dangles_witness:
  "stream_open_cb 1 ctx0 = (NGTCP2_ERR_CALLBACK_FAILURE, ctx0\<lparr>last_err := cant_open_error\<rparr>) \<and>
   reason (last_err (snd (stream_open_cb 1 ctx0))) = Some ENDED \<and>
   stream_open_cb 4 ctx0 = (0, ctx0) \<and>
   fst (quic_recv ext0 (recv0 [STREAM_OPEN 1] 0) ctx0) = KNOT_NET_ERECV \<and>
   last_err (snd (quic_recv ext0 (recv0 [STREAM_OPEN 1] 0) ctx0)) = cant_open_error \<and>
   reason (last_err (snd (quic_recv ext0 (recv0 [STREAM_OPEN 1] 0) ctx0))) = Some ENDED"
proof -
  have m1: "(1::int) mod 4 \<noteq> 0" and m4: "(4::int) mod 4 = 0" by simp_all
  have d: "datagram_read (recv0 [STREAM_OPEN 1] 0)"
    by (simp add: datagram_read_def recv0_def quic_get_ecn_def)
  have ev: "r_events (recv0 [STREAM_OPEN 1] 0) = [] @ STREAM_OPEN 1 # []"
    by (simp add: recv0_def)
  have p: "fst (run_callbacks ext0 [] (with_ecn (recv0 [STREAM_OPEN 1] 0) ctx0)) = 0"
    by simp
  from stream_open_reason_dangles [of 1 ctx0 "recv0 [STREAM_OPEN 1] 0" "[]" "[]" ext0]
       stream_open_reason_dangles [of 4 ctx0 "recv0 [STREAM_OPEN 1] 0" "[]" "[]" ext0]
       m1 m4 d ev p
  show ?thesis by (simp add: cant_open_error_def)
qed

text \<open>
  C2 (the code departs from the claim). A datagram of 1200 bytes for which
  \<open>ngtcp2_conn_read_pkt\<close> reports \<open>NGTCP2_ERR_DROP_CONN\<close> leaves the state
  \<open>CONNECTED\<close>, and one for which it reports the fatal \<open>NGTCP2_ERR_NOMEM\<close> leaves
  \<open>last_err\<close> the application error it was: \<open>quic_recv\<close> returns
  \<open>KNOT_NET_ERECV\<close> with the context changed in the ECN only.
\<close>

theorem quic_recv_drop_conn_not_closed:
  "quic_recv ext0 (recv0 [] NGTCP2_ERR_DROP_CONN) ctx0 = (KNOT_NET_ERECV, ctx0\<lparr>pi_ecn := 2\<rparr>) \<and>
   state ctx0 = CONNECTED \<and>
   ngtcp2_err_is_fatal NGTCP2_ERR_NOMEM \<and>
   quic_recv ext0 (recv0 [] NGTCP2_ERR_NOMEM) ctx0 = (KNOT_NET_ERECV, ctx0\<lparr>pi_ecn := 2\<rparr>) \<and>
   err_type (last_err ctx0) = NGTCP2_CONNECTION_CLOSE_ERROR_CODE_TYPE_APPLICATION"
  by (simp add: quic_recv_def recv0_def quic_get_ecn_def ngtcp2_call_def ctx0_def Let_def
        ngtcp2_err_is_fatal_def NGTCP2_ERR_DROP_CONN_def NGTCP2_ERR_NOMEM_def
        NGTCP2_ERR_FATAL_def)
subsection \<open>Copying a response\<close>

lemma quic_respcpy_enomem:
  assumes "out_storage (stream ctx) = Some msgs"
    and "out_storage_it (stream ctx) < length msgs"
    and "length buf < length (msgs ! out_storage_it (stream ctx))"
    and "buf \<noteq> []"
  shows "quic_respcpy ctx buf = Return (RET KNOT_ENOMEM, ctx, buf)"
  using assms by (simp add: quic_respcpy_def out_storage_len_def Let_def)

lemma quic_respcpy_copy:
  assumes "out_storage (stream ctx) = Some msgs"
    and "out_storage_it (stream ctx) < length msgs"
    and "length (msgs ! out_storage_it (stream ctx)) \<le> length buf"
    and "buf \<noteq> []"
  shows "\<exists>ctx'. quic_respcpy ctx buf
                  = Return (LEN (length (msgs ! out_storage_it (stream ctx))), ctx',
                            msgs ! out_storage_it (stream ctx)
                            @ drop (length (msgs ! out_storage_it (stream ctx))) buf) \<and>
                out_storage_it (stream ctx') = out_storage_it (stream ctx) + 1"
  using assms by (simp add: quic_respcpy_def out_storage_len_def Let_def)

text \<open>
  C9. With a completed message waiting at the iterator and a TLS context, for buffers that
  are not empty (as \<open>quic_respcpy\<close> asserts): if the message is longer than the
  caller's buffer, \<open>quic_respcpy\<close> and \<open>quic_recv_dns_response\<close> return
  \<open>KNOT_ENOMEM\<close> and leave the context (the messages and the iterator) and the buffer
  as they were, so that a call with a buffer that is large enough gets that same message:
  it copies the message to the front of the buffer, advances the iterator by one and
  returns the message's length (from \<open>quic_recv_dns_response\<close> at once when that
  length is not 0).
\<close>

theorem recv_response_buffer_too_small:
  assumes "out_storage (stream ctx) = Some msgs"
    and "out_storage_it (stream ctx) < length msgs"
    and "tls ctx \<noteq> None"
  shows "let msg = msgs ! out_storage_it (stream ctx) in
         (buf \<noteq> [] \<and> length buf < length msg \<longrightarrow>
            quic_respcpy ctx buf = Return (RET KNOT_ENOMEM, ctx, buf) \<and>
            quic_recv_dns_response ext fam rounds (Some ctx) (Some buf)
              = Return (RET KNOT_ENOMEM, Some ctx, Some buf)) \<and>
         (big \<noteq> [] \<and> length msg \<le> length big \<longrightarrow>
            (\<exists>ctx'. quic_respcpy ctx big
                      = Return (LEN (length msg), ctx', msg @ drop (length msg) big) \<and>
                    out_storage_it (stream ctx') = out_storage_it (stream ctx) + 1 \<and>
                    (0 < length msg \<longrightarrow>
                       quic_recv_dns_response ext fam rounds (Some ctx) (Some big)
                         = Return (LEN (length msg), Some ctx',
                                   Some (msg @ drop (length msg) big)))))"
proof -
  let ?msg = "msgs ! out_storage_it (stream ctx)"
  obtain t where t: "tls ctx = Some t" using assms(3) by auto
  have small: "quic_respcpy ctx buf = Return (RET KNOT_ENOMEM, ctx, buf) \<and>
               quic_recv_dns_response ext fam rounds (Some ctx) (Some buf)
                 = Return (RET KNOT_ENOMEM, Some ctx, Some buf)"
    if "buf \<noteq> []" "length buf < length ?msg"
    using quic_respcpy_enomem [OF assms(1,2) that(2,1)] t
    by (simp add: quic_recv_dns_response_def ret_is_zero_def)
  have large: "\<exists>ctx'. quic_respcpy ctx big
                        = Return (LEN (length ?msg), ctx', ?msg @ drop (length ?msg) big) \<and>
                 out_storage_it (stream ctx') = out_storage_it (stream ctx) + 1 \<and>
                 (0 < length ?msg \<longrightarrow>
                    quic_recv_dns_response ext fam rounds (Some ctx) (Some big)
                      = Return (LEN (length ?msg), Some ctx', Some (?msg @ drop (length ?msg) big)))"
    if ne: "big \<noteq> []" and le: "length ?msg \<le> length big"
  proof -
    from quic_respcpy_copy [OF assms(1,2) le ne] obtain c' where
      e: "quic_respcpy ctx big = Return (LEN (length ?msg), c', ?msg @ drop (length ?msg) big)"
      and i: "out_storage_it (stream c') = out_storage_it (stream ctx) + 1"
      by blast
    have r: "quic_recv_dns_response ext fam rounds (Some ctx) (Some big)
               = Return (LEN (length ?msg), Some c', Some (?msg @ drop (length ?msg) big))"
      if "0 < length ?msg"
      using that t by (simp add: quic_recv_dns_response_def e ret_is_zero_def)
    show ?thesis
      using e i r by blast
  qed
  show ?thesis
    unfolding Let_def using small large by blast
qed

theorem recv_response_buffer_too_small_witness:
  "quic_recv_dns_response ext0 AF_INET [] (Some ctx_queued) (Some [0, 0])
     = Return (RET KNOT_ENOMEM, Some ctx_queued, Some [0, 0]) \<and>
   (\<exists>ctx'. quic_recv_dns_response ext0 AF_INET [] (Some ctx_queued) (Some [9, 9, 9, 9])
             = Return (LEN 3, Some ctx', Some [1, 2, 3, 9]) \<and>
           out_storage_it (stream ctx') = 1)"
proof -
  have a: "out_storage (stream ctx_queued) = Some [[1, 2, 3], [4, 5]]"
    by (simp add: ctx_queued_def)
  have b: "out_storage_it (stream ctx_queued) < length [[1, 2, 3], [4, 5 :: byte]]"
    by (simp add: ctx_queued_def ctx0_def)
  have c: "tls ctx_queued \<noteq> None"
    by (simp add: ctx_queued_def ctx0_def)
  have i: "out_storage_it (stream ctx_queued) = 0"
    by (simp add: ctx_queued_def ctx0_def)
  from recv_response_buffer_too_small [OF a b c, of "[0, 0]" ext0 AF_INET "[]" "[9, 9, 9, 9]"]
  show ?thesis
    by (auto simp add: i Let_def numeral_3_eq_3)
qed
subsection \<open>Sending a query\<close>


lemma knot_map_errno_not_ok [simp]: "knot_map_errno e \<noteq> KNOT_EOK"
  by (cases e) (simp_all add: knot_map_errno_def)





text \<open>The definitions that evaluate the client on the test inputs.\<close>

lemmas quic_eval =
  quic_send_dns_query_def quic_recv_def quic_get_ecn_def quic_set_enc_def ngtcp2_call_def
  stream_write_call_def acked_stream_data_offset_cb_def quic_timeout_def NGTCP2_SECONDS_def
  query_length_def ctx0_def recv0_def round_acked_def query3_def ext0_def Let_def
  NGTCP2_ERR_STREAM_DATA_BLOCKED_def NGTCP2_ERR_NOMEM_def NGTCP2_ERR_WRITE_MORE_def
  NGTCP2_ERR_STREAM_SHUT_WR_def NGTCP2_ERR_DROP_CONN_def NGTCP2_ERR_FATAL_def
  ngtcp2_err_is_fatal_def


subsection \<open>The connection state\<close>

lemma state_step_refl [simp]: "state_step s s"
  by (simp add: state_step_def)

lemma state_step_trans: "state_step s s' \<Longrightarrow> state_step s' s'' \<Longrightarrow> state_step s s''"
  by (auto simp: state_step_def)

lemma state_step_rank: "state_step s s' \<Longrightarrow> s \<noteq> CLOSED \<Longrightarrow> state_rank s \<le> state_rank s'"
  by (cases s; auto simp: state_step_def state_rank_def)

lemmas callback_defs =
  recv_stream_data_cb_def stream_open_cb_def acked_stream_data_offset_cb_def stream_close_cb_def
  extend_max_bidi_streams_cb_def quic_open_bidi_stream_def handshake_confirmed_cb_def
  secret_func_def alert_read_func_def set_application_error_def set_transport_error_def
  end_lifetime_def

lemma quic_callback_state:
  "state_step (state ctx) (state (snd (quic_callback ext e ctx)))"
  by (cases e) (auto simp: callback_defs state_step_def Let_def split: prod.splits)

lemma run_callbacks_state:
  "state_step (state ctx) (state (snd (run_callbacks ext es ctx)))"
proof (induction es arbitrary: ctx)
  case Nil
  then show ?case by simp
next
  case (Cons e es)
  obtain ret c where e: "quic_callback ext e ctx = (ret, c)" by (cases "quic_callback ext e ctx")
  have s1: "state_step (state ctx) (state c)"
    using quic_callback_state [of ctx ext e] e by simp
  show ?case
  proof (cases "ret = 0")
    case True
    then show ?thesis using e s1 Cons.IH [of c] state_step_trans by auto
  next
    case False
    then show ?thesis using e s1 by simp
  qed
qed

lemma with_ecn_state [simp]: "state (with_ecn r ctx) = state ctx"
  by (simp add: with_ecn_def)

lemma quic_recv_state: "state_step (state ctx) (state (snd (quic_recv ext r ctx)))"
proof (cases "datagram_read r")
  case True
  then show ?thesis
    using run_callbacks_state [of "with_ecn r ctx" ext "r_events r"]
    by (simp add: quic_recv_read)
next
  case False
  then show ?thesis by (simp add: quic_recv_not_read)
qed

lemma quic_send_data_state:
  "quic_send_data ext fam steps datav ctx tr = Return (ret, ctx', tr') \<Longrightarrow>
   state_step (state ctx) (state ctx')"
proof (induction steps arbitrary: datav ctx tr)
  case Nil
  then show ?case by simp
next
  case (Cons s steps)
  obtain nwrite ctx1 where c: "ngtcp2_call ext (ws_events s) (ws_nwrite s) ctx = (nwrite, ctx1)"
    by (cases "ngtcp2_call ext (ws_events s) (ws_nwrite s) ctx")
  have c1: "ctx1 = snd (run_callbacks ext (ws_events s) ctx)"
    using c ngtcp2_call_ctx [of ext "ws_events s" "ws_nwrite s" ctx] by simp
  have s1: "state_step (state ctx) (state ctx1)"
    unfolding c1 by (rule run_callbacks_state)
  have rec: "state_step (state ctx) (state ctx')"
    if "quic_send_data ext fam steps dv ctx1 t1 = Return (ret, ctx', tr')" for dv t1
    using Cons.IH [OF that] s1 by (rule state_step_trans [rotated])
  show ?case
    using Cons.prems c rec s1
    by (auto simp: Let_def set_transport_error_def split: if_splits)
qed

lemma send_query_loop_state:
  "send_query_loop ext fam rounds datav ctx tr = Return (ret, ctx', tr') \<Longrightarrow>
   state_step (state ctx) (state ctx')"
proof (induction rounds arbitrary: datav ctx tr)
  case Nil
  then show ?case by (simp split: if_splits)
next
  case (Cons r rounds)
  show ?case
  proof (cases "sent (stream ctx) = 0")
    case True
    then show ?thesis using Cons.prems by simp
  next
    case nz: False
    then obtain t where t: "tls ctx = Some t"
      using Cons.prems by (cases "tls ctx") auto
    show ?thesis
    proof (cases "quic_timeout (timestamp ctx) (wait t) (rd_now r)")
      case True
      then show ?thesis using Cons.prems nz t by simp
    next
      case nt: False
      then obtain ret1 ctx1 tr1 where
        sd: "quic_send_data ext fam (rd_writes r) datav ctx tr = Return (ret1, ctx1, tr1)"
        using Cons.prems nz t
        by (cases "quic_send_data ext fam (rd_writes r) datav ctx tr") auto
      have s1: "state_step (state ctx) (state ctx1)"
        using sd by (rule quic_send_data_state)
      have s2: "state_step (state ctx) (state (snd (quic_recv ext (rd_recv r) ctx1)))"
        using s1 quic_recv_state by (rule state_step_trans)
      have rec: "state_step (state ctx) (state ctx')"
        if "send_query_loop ext fam rounds [] c tr1 = Return (ret, ctx', tr')"
          and "state_step (state ctx) (state c)" for c
        using that(2) Cons.IH [OF that(1)] by (rule state_step_trans)
      show ?thesis
        using Cons.prems nz t nt sd s1 s2 rec
        by (auto split: if_splits poll_result.splits prod.splits)
    qed
  qed
qed

lemma quic_respcpy_state:
  "quic_respcpy ctx buf = Return (rl, ctx', buf') \<Longrightarrow> state ctx' = state ctx"
  by (auto simp: quic_respcpy_def Let_def split: if_splits option.splits)

lemma recv_response_loop_state:
  "recv_response_loop ext fam rounds ctx buf = Return (ret, ctx', buf') \<Longrightarrow>
   state_step (state ctx) (state ctx')"
proof (induction rounds arbitrary: ctx buf)
  case Nil
  then show ?case by simp
next
  case (Cons r rounds)
  obtain t where t: "tls ctx = Some t"
    using Cons.prems by (cases "tls ctx") auto
  show ?case
  proof (cases "quic_timeout (timestamp ctx) (wait t) (rd_now r)")
    case True
    then show ?thesis using Cons.prems t by simp
  next
    case nt: False
    have send: "state_step (state ctx) (state ctx')"
      if s: "state_step (state ctx) (state c)"
        and "(case quic_send_data ext fam (rd_writes r) [] c [] of
                Pending \<Rightarrow> Pending
              | Crash \<Rightarrow> Crash
              | Return (ret, ctx2, tr) \<Rightarrow>
                  if ret \<noteq> KNOT_EOK then Return (RET ret, ctx2, b)
                  else recv_response_loop ext fam rounds ctx2 b) = Return (ret, ctx', buf')"
      for c b
    proof -
      from that(2) obtain ret1 ctx2 tr1 where
        sd: "quic_send_data ext fam (rd_writes r) [] c [] = Return (ret1, ctx2, tr1)"
        by (cases "quic_send_data ext fam (rd_writes r) [] c []") auto
      have s2: "state_step (state ctx) (state ctx2)"
        using s quic_send_data_state [OF sd] by (rule state_step_trans)
      show ?thesis
      proof (cases "ret1 = KNOT_EOK")
        case True
        then have "recv_response_loop ext fam rounds ctx2 b = Return (ret, ctx', buf')"
          using that(2) sd by simp
        from s2 Cons.IH [OF this] show ?thesis by (rule state_step_trans)
      next
        case False
        then show ?thesis using that(2) sd s2 by simp
      qed
    qed
    show ?thesis
    proof (cases "rd_poll r")
      case (POLL_FAILED e)
      then show ?thesis using Cons.prems t nt by simp
    next
      case POLL_TIMEOUT
      then show ?thesis using Cons.prems t nt send [of ctx buf] by simp
    next
      case POLL_READY
      obtain ret1 ctx1 where rc: "quic_recv ext (rd_recv r) ctx = (ret1, ctx1)"
        by (cases "quic_recv ext (rd_recv r) ctx")
      have s1: "state_step (state ctx) (state ctx1)"
        using quic_recv_state [of ctx ext "rd_recv r"] rc by simp
      show ?thesis
      proof (cases "ret1 = KNOT_EOK")
        case False
        then show ?thesis using Cons.prems t nt POLL_READY rc s1 by simp
      next
        case ok: True
        from Cons.prems t nt POLL_READY rc ok obtain rl ctx2 buf2 where
          cp: "quic_respcpy ctx1 buf = Return (rl, ctx2, buf2)"
          by (cases "quic_respcpy ctx1 buf") auto
        have s2: "state_step (state ctx) (state ctx2)"
          using s1 quic_respcpy_state [OF cp] by simp
        show ?thesis
          using Cons.prems t nt POLL_READY rc ok cp s1 s2 send [of ctx2 buf2]
          by (auto simp: Let_def split: if_splits)
      qed
    qed
  qed
qed

text \<open>No operation reads the state: contexts that differ in it alone are treated alike.\<close>

lemma same_but_state_refl [simp]: "same_but_state c c"
  by (simp add: same_but_state_def)

lemma same_but_state_update [simp]: "same_but_state (c\<lparr>state := s\<rparr>) c"
  by (simp add: same_but_state_def)

lemma quic_callback_same:
  assumes "same_but_state c c'"
  shows "fst (quic_callback ext e c) = fst (quic_callback ext e c')"
    and "same_but_state (snd (quic_callback ext e c)) (snd (quic_callback ext e c'))"
  using assms
  by (cases e; auto simp: callback_defs same_but_state_def Let_def split: prod.splits)+

lemma run_callbacks_same:
  "same_but_state c c' \<Longrightarrow>
   fst (run_callbacks ext es c) = fst (run_callbacks ext es c') \<and>
   same_but_state (snd (run_callbacks ext es c)) (snd (run_callbacks ext es c'))"
proof (induction es arbitrary: c c')
  case Nil
  then show ?case by simp
next
  case (Cons e es)
  obtain r1 c1 where a: "quic_callback ext e c = (r1, c1)" by (cases "quic_callback ext e c")
  obtain r2 c2 where b: "quic_callback ext e c' = (r2, c2)" by (cases "quic_callback ext e c'")
  have r: "r1 = r2" and s: "same_but_state c1 c2"
    using quic_callback_same [OF Cons.prems, of ext e] a b by simp_all
  show ?case
    using a b r s Cons.IH [OF s] by simp
qed

lemma ngtcp2_call_same:
  assumes "same_but_state c c'"
  shows "fst (ngtcp2_call ext es lr c) = fst (ngtcp2_call ext es lr c')"
    and "same_but_state (snd (ngtcp2_call ext es lr c)) (snd (ngtcp2_call ext es lr c'))"
  using run_callbacks_same [OF assms, of ext es]
  by (simp_all add: ngtcp2_call_ret)

lemma quic_recv_same:
  assumes "same_but_state c c'"
  shows "fst (quic_recv ext r c) = fst (quic_recv ext r c')"
    and "same_but_state (snd (quic_recv ext r c)) (snd (quic_recv ext r c'))"
proof -
  obtain ecn errno where e: "quic_get_ecn (r_cmsgs r) (r_family r) = (ecn, errno)"
    by (cases "quic_get_ecn (r_cmsgs r) (r_family r)")
  have s1: "same_but_state (c\<lparr>pi_ecn := ecn\<rparr>) (c'\<lparr>pi_ecn := ecn\<rparr>)"
    using assms by (simp add: same_but_state_def)
  note n = ngtcp2_call_same [OF s1, of ext "r_events r" "r_ret r"]
  obtain ret1 d1 where a: "ngtcp2_call ext (r_events r) (r_ret r) (c\<lparr>pi_ecn := ecn\<rparr>) = (ret1, d1)"
    by (cases "ngtcp2_call ext (r_events r) (r_ret r) (c\<lparr>pi_ecn := ecn\<rparr>)")
  obtain ret2 d2 where b: "ngtcp2_call ext (r_events r) (r_ret r) (c'\<lparr>pi_ecn := ecn\<rparr>) = (ret2, d2)"
    by (cases "ngtcp2_call ext (r_events r) (r_ret r) (c'\<lparr>pi_ecn := ecn\<rparr>)")
  have r: "ret1 = ret2" and s2: "same_but_state d1 d2"
    using n a b by simp_all
  have s3: "same_but_state (d1\<lparr>state := CLOSED\<rparr>) (d2\<lparr>state := CLOSED\<rparr>)"
    "same_but_state (set_transport_error d1 x None 0) (set_transport_error d2 x None 0)" for x
    using s2 by (simp_all add: same_but_state_def set_transport_error_def)
  show "fst (quic_recv ext r c) = fst (quic_recv ext r c')"
    by (auto simp add: quic_recv_def Let_def e a b r)
  show "same_but_state (snd (quic_recv ext r c)) (snd (quic_recv ext r c'))"
    using s1 s2 s3 assms by (auto simp add: quic_recv_def Let_def e a b r)
qed

lemma same_result_Return:
  "same_but_state c c' \<Longrightarrow> same_result (Return (r, c, x)) (Return (r, c', x))"
  by (simp add: same_result_def)

lemma quic_send_data_same:
  "same_but_state c c' \<Longrightarrow>
   same_result (quic_send_data ext fam steps datav c tr) (quic_send_data ext fam steps datav c' tr)"
proof (induction steps arbitrary: datav c c' tr)
  case Nil
  then show ?case by (simp add: same_result_def)
next
  case (Cons s steps)
  note n = ngtcp2_call_same [OF Cons.prems, of ext "ws_events s" "ws_nwrite s"]
  obtain nw d1 where a: "ngtcp2_call ext (ws_events s) (ws_nwrite s) c = (nw, d1)"
    by (cases "ngtcp2_call ext (ws_events s) (ws_nwrite s) c")
  obtain nw2 d2 where b: "ngtcp2_call ext (ws_events s) (ws_nwrite s) c' = (nw2, d2)"
    by (cases "ngtcp2_call ext (ws_events s) (ws_nwrite s) c'")
  have r: "nw2 = nw" and s2: "same_but_state d1 d2"
    using n a b by simp_all
  have call: "stream_write_call datav c = stream_write_call datav c'"
    using Cons.prems by (simp add: stream_write_call_def same_but_state_def)
  have s3: "same_but_state
              (set_transport_error (if q then d1\<lparr>stream := (stream d1)\<lparr>id' := - 1\<rparr>\<rparr> else d1) x None 0)
              (set_transport_error (if q then d2\<lparr>stream := (stream d2)\<lparr>id' := - 1\<rparr>\<rparr> else d2) x None 0)"
    for q x
    using s2 by (simp add: same_but_state_def set_transport_error_def)
  show ?case
    using a b r call s2 s3 Cons.IH [OF s2]
    by (simp add: Let_def same_result_Return)
qed

lemma send_query_loop_same:
  "same_but_state c c' \<Longrightarrow>
   same_result (send_query_loop ext fam rounds datav c tr)
     (send_query_loop ext fam rounds datav c' tr)"
proof (induction rounds arbitrary: datav c c' tr)
  case Nil
  then show ?case by (simp add: same_result_def same_but_state_def)
next
  case (Cons r rounds)
  have f: "sent (stream c) = sent (stream c')" "tls c = tls c'" "timestamp c = timestamp c'"
    using Cons.prems by (simp_all add: same_but_state_def)
  show ?case
  proof (cases "sent (stream c') = 0")
    case True
    then show ?thesis using f Cons.prems by (simp add: same_result_Return)
  next
    case nz: False
    show ?thesis
    proof (cases "tls c'")
      case None
      then show ?thesis using f nz by (simp add: same_result_def)
    next
      case (Some t)
      show ?thesis
      proof (cases "quic_timeout (timestamp c') (wait t) (rd_now r)")
        case True
        then show ?thesis using f nz Some Cons.prems by (simp add: same_result_Return)
      next
        case nt: False
        note sd = quic_send_data_same [OF Cons.prems, of ext fam "rd_writes r" datav tr]
        show ?thesis
        proof (cases "quic_send_data ext fam (rd_writes r) datav c tr")
          case Crash
          then show ?thesis using sd f nz Some nt by (simp add: same_result_def)
        next
          case Pending
          then show ?thesis using sd f nz Some nt by (simp add: same_result_def)
        next
          case (Return x)
          obtain ret1 d1 tr1 where x: "x = (ret1, d1, tr1)" by (cases x)
          from sd Return x obtain d2 where
            r2: "quic_send_data ext fam (rd_writes r) datav c' tr = Return (ret1, d2, tr1)"
            and s2: "same_but_state d1 d2"
            by (auto simp: same_result_def split: outcome.splits)
          note rv = quic_recv_same [OF s2, of ext "rd_recv r"]
          obtain q1 e1 where a: "quic_recv ext (rd_recv r) d1 = (q1, e1)"
            by (cases "quic_recv ext (rd_recv r) d1")
          obtain q2 e2 where b: "quic_recv ext (rd_recv r) d2 = (q2, e2)"
            by (cases "quic_recv ext (rd_recv r) d2")
          have q: "q2 = q1" and s3: "same_but_state e1 e2"
            using rv a b by simp_all
          show ?thesis
            using f nz Some nt Return x r2 s2 a b q s3 Cons.IH [OF s2] Cons.IH [OF s3]
            by (simp add: same_result_Return split: poll_result.splits)
        qed
      qed
    qed
  qed
qed

lemma quic_respcpy_same:
  assumes "same_but_state c c'"
  shows "same_result (quic_respcpy c buf) (quic_respcpy c' buf)"
  using assms
  by (auto simp: quic_respcpy_def same_result_def same_but_state_def Let_def
           split: option.splits)

lemma recv_response_loop_same:
  "same_but_state c c' \<Longrightarrow>
   same_result (recv_response_loop ext fam rounds c buf) (recv_response_loop ext fam rounds c' buf)"
proof (induction rounds arbitrary: c c' buf)
  case Nil
  then show ?case by (simp add: same_result_def)
next
  case (Cons r rounds)
  have f: "tls c = tls c'" "timestamp c = timestamp c'"
    using Cons.prems by (simp_all add: same_but_state_def)
  let ?send = "\<lambda>c1 b1. case quic_send_data ext fam (rd_writes r) [] c1 [] of
                    Pending \<Rightarrow> Pending
                  | Crash \<Rightarrow> Crash
                  | Return (ret, ctx2, tr) \<Rightarrow>
                      if ret \<noteq> KNOT_EOK then Return (RET ret, ctx2, b1)
                      else recv_response_loop ext fam rounds ctx2 b1"
  have send: "same_result (?send d1 b) (?send d2 b)" if s: "same_but_state d1 d2" for d1 d2 b
  proof -
    note sd = quic_send_data_same [OF s, of ext fam "rd_writes r" "[]" "[]"]
    show ?thesis
    proof (cases "quic_send_data ext fam (rd_writes r) [] d1 []")
      case Crash
      then show ?thesis using sd by (simp add: same_result_def)
    next
      case Pending
      then show ?thesis using sd by (simp add: same_result_def)
    next
      case (Return x)
      obtain ret1 g1 tr1 where x: "x = (ret1, g1, tr1)" by (cases x)
      from sd Return x obtain g2 where
        r2: "quic_send_data ext fam (rd_writes r) [] d2 [] = Return (ret1, g2, tr1)"
        and s2: "same_but_state g1 g2"
        by (auto simp: same_result_def split: outcome.splits)
      show ?thesis
        using Return x r2 s2 Cons.IH [OF s2] by (simp add: same_result_Return)
    qed
  qed
  show ?case
  proof (cases "tls c'")
    case None
    then show ?thesis using f by (simp add: same_result_def)
  next
    case (Some t)
    show ?thesis
    proof (cases "quic_timeout (timestamp c') (wait t) (rd_now r)")
      case True
      then show ?thesis using f Some Cons.prems by (simp add: same_result_Return)
    next
      case nt: False
      show ?thesis
      proof (cases "rd_poll r")
        case (POLL_FAILED e)
        then show ?thesis using f Some nt Cons.prems by (simp add: same_result_Return)
      next
        case POLL_TIMEOUT
        then show ?thesis using f Some nt send [OF Cons.prems] by simp
      next
        case POLL_READY
        note rv = quic_recv_same [OF Cons.prems, of ext "rd_recv r"]
        obtain q1 e1 where a: "quic_recv ext (rd_recv r) c = (q1, e1)"
          by (cases "quic_recv ext (rd_recv r) c")
        obtain q2 e2 where b: "quic_recv ext (rd_recv r) c' = (q2, e2)"
          by (cases "quic_recv ext (rd_recv r) c'")
        have q: "q2 = q1" and s3: "same_but_state e1 e2"
          using rv a b by simp_all
        note cp = quic_respcpy_same [OF s3, of buf]
        show ?thesis
        proof (cases "quic_respcpy e1 buf")
          case Crash
          then have "quic_respcpy e2 buf = Crash" using cp by (simp add: same_result_def)
          then show ?thesis
            using f Some nt POLL_READY a b q s3 Crash
            by (simp add: same_result_Return same_result_def)
        next
          case Pending
          then have "quic_respcpy e2 buf = Pending" using cp by (simp add: same_result_def)
          then show ?thesis
            using f Some nt POLL_READY a b q s3 Pending
            by (simp add: same_result_Return same_result_def)
        next
          case (Return x)
          obtain l1 h1 b1 where x: "x = (l1, h1, b1)" by (cases x)
          from cp Return x obtain h2 where
            cb: "quic_respcpy e2 buf = Return (l1, h2, b1)" and s4: "same_but_state h1 h2"
            by (auto simp: same_result_def split: outcome.splits)
          show ?thesis
            using f Some nt POLL_READY a b q s3 Return x cb s4 send [OF s4]
            by (simp add: same_result_Return)
        qed
      qed
    qed
  qed
qed

lemma quic_send_dns_query_state:
  assumes "quic_send_dns_query ext fam rounds (Some ctx) buf = Return (ret, Some ctx', tr)"
  shows "state_step (state ctx) (state ctx')"
proof (cases buf)
  case None
  then show ?thesis using assms by (simp add: quic_send_dns_query_def)
next
  case (Some b)
  let ?c = "ctx\<lparr>stream := (stream ctx)\<lparr>sent := sent (stream ctx) + of_nat (length b) + 2\<rparr>\<rparr>"
  have "send_query_loop ext fam rounds [query_length (length b), b] ?c [] = Return (ret, ctx', tr)"
    using assms Some
    by (auto simp: quic_send_dns_query_def Let_def split: outcome.splits)
  from send_query_loop_state [OF this] show ?thesis by simp
qed

lemma quic_recv_dns_response_state:
  assumes "quic_recv_dns_response ext fam rounds (Some ctx) buf = Return (ret, Some ctx', buf')"
  shows "state_step (state ctx) (state ctx')"
proof (cases buf)
  case None
  then show ?thesis using assms by (simp add: quic_recv_dns_response_def)
next
  case b: (Some b)
  show ?thesis
  proof (cases "tls ctx")
    case None
    then show ?thesis using assms b by (simp add: quic_recv_dns_response_def)
  next
    case (Some t)
    from assms b Some obtain l c1 b1 where cp: "quic_respcpy ctx b = Return (l, c1, b1)"
      by (cases "quic_respcpy ctx b") (auto simp: quic_recv_dns_response_def)
    have s1: "state c1 = state ctx"
      using cp by (rule quic_respcpy_state)
    show ?thesis
    proof (cases "ret_is_zero l")
      case False
      then show ?thesis
        using assms b Some cp s1 by (simp add: quic_recv_dns_response_def)
    next
      case True
      then have "recv_response_loop ext fam rounds c1 b1 = Return (ret, ctx', the buf')"
        using assms b Some cp
        by (auto simp: quic_recv_dns_response_def split: outcome.splits)
      from recv_response_loop_state [OF this] s1 show ?thesis by simp
    qed
  qed
qed

lemma quic_send_dns_query_same:
  "same_result_opt (quic_send_dns_query ext fam rounds (Some (ctx\<lparr>state := s\<rparr>)) buf)
     (quic_send_dns_query ext fam rounds (Some ctx) buf)"
proof (cases buf)
  case None
  then show ?thesis by (simp add: quic_send_dns_query_def same_result_opt_def)
next
  case (Some b)
  let ?up = "\<lambda>c. c\<lparr>stream := (stream c)\<lparr>sent := sent (stream c) + of_nat (length b) + 2\<rparr>\<rparr>"
  have "same_but_state (?up (ctx\<lparr>state := s\<rparr>)) (?up ctx)"
    by (simp add: same_but_state_def)
  from send_query_loop_same [OF this, of ext fam rounds "[query_length (length b), b]" "[]"]
  show ?thesis
    using Some
    by (auto simp: quic_send_dns_query_def Let_def same_result_def same_result_opt_def
             split: outcome.splits)
qed

lemma quic_recv_dns_response_same:
  "same_result_opt (quic_recv_dns_response ext fam rounds (Some (ctx\<lparr>state := s\<rparr>)) buf)
     (quic_recv_dns_response ext fam rounds (Some ctx) buf)"
proof (cases buf)
  case None
  then show ?thesis by (simp add: quic_recv_dns_response_def same_result_opt_def)
next
  case b: (Some b)
  show ?thesis
  proof (cases "tls ctx")
    case None
    then show ?thesis using b by (simp add: quic_recv_dns_response_def same_result_opt_def)
  next
    case (Some t)
    note cp = quic_respcpy_same [of "ctx\<lparr>state := s\<rparr>" ctx b, OF same_but_state_update]
    show ?thesis
    proof (cases "quic_respcpy (ctx\<lparr>state := s\<rparr>) b")
      case Crash
      then have "quic_respcpy ctx b = Crash" using cp by (simp add: same_result_def)
      then show ?thesis
        using b Some Crash by (simp add: quic_recv_dns_response_def same_result_opt_def)
    next
      case Pending
      then have "quic_respcpy ctx b = Pending" using cp by (simp add: same_result_def)
      then show ?thesis
        using b Some Pending by (simp add: quic_recv_dns_response_def same_result_opt_def)
    next
      case (Return x)
      obtain l1 c1 b1 where x: "x = (l1, c1, b1)" by (cases x)
      from cp Return x obtain c2 where
        cb: "quic_respcpy ctx b = Return (l1, c2, b1)" and s1: "same_but_state c1 c2"
        by (auto simp: same_result_def split: outcome.splits)
      from recv_response_loop_same [OF s1, of ext fam rounds b1]
      show ?thesis
        using b Some Return x cb s1
        by (auto simp: quic_recv_dns_response_def same_result_def same_result_opt_def
                 split: outcome.splits)
    qed
  qed
qed

text \<open>
  C3 (amended). Along a \<open>quic_send_dns_query\<close> or a \<open>quic_recv_dns_response\<close> that starts
  in \<open>OPENING\<close> or \<open>CONNECTED\<close> and returns, the connection state does not move backward
  in the order \<open>OPENING\<close>, \<open>CONNECTED\<close>, \<open>CLOSED\<close>. Neither operation reads the state:
  called on the same context with its state replaced by any other, \<open>CLOSED\<close> included,
  each has the same outcome, returning the same value, the same trace or buffer, and a
  context that differs at most in its state. What they reject is a null argument: a
  null context or buffer gives \<open>KNOT_NET_ESEND\<close> from \<open>quic_send_dns_query\<close>, a null
  context, TLS context or buffer gives \<open>KNOT_EINVAL\<close> from \<open>quic_recv_dns_response\<close>.
\<close>

theorem quic_state_forward_and_unread:
  "(state ctx \<noteq> CLOSED \<and>
    quic_send_dns_query ext fam rounds (Some ctx) buf = Return (ret, Some ctx', tr)
      \<longrightarrow> state_rank (state ctx) \<le> state_rank (state ctx')) \<and>
   (state ctx \<noteq> CLOSED \<and>
    quic_recv_dns_response ext fam rounds (Some ctx) rbuf = Return (rl, Some ctx'', rbuf')
      \<longrightarrow> state_rank (state ctx) \<le> state_rank (state ctx'')) \<and>
   same_result_opt (quic_send_dns_query ext fam rounds (Some (ctx\<lparr>state := s\<rparr>)) buf)
     (quic_send_dns_query ext fam rounds (Some ctx) buf) \<and>
   same_result_opt (quic_recv_dns_response ext fam rounds (Some (ctx\<lparr>state := s\<rparr>)) rbuf)
     (quic_recv_dns_response ext fam rounds (Some ctx) rbuf) \<and>
   quic_send_dns_query ext fam rounds None buf = Return (KNOT_NET_ESEND, None, []) \<and>
   quic_send_dns_query ext fam rounds (Some ctx) None = Return (KNOT_NET_ESEND, Some ctx, []) \<and>
   quic_recv_dns_response ext fam rounds None rbuf = Return (RET KNOT_EINVAL, None, rbuf) \<and>
   quic_recv_dns_response ext fam rounds (Some ctx) None
     = Return (RET KNOT_EINVAL, Some ctx, None) \<and>
   quic_recv_dns_response ext fam rounds (Some (ctx\<lparr>tls := None\<rparr>)) rbuf
     = Return (RET KNOT_EINVAL, Some (ctx\<lparr>tls := None\<rparr>), rbuf)"
proof -
  have a: "state_rank (state ctx) \<le> state_rank (state ctx')"
    if "state ctx \<noteq> CLOSED"
      "quic_send_dns_query ext fam rounds (Some ctx) buf = Return (ret, Some ctx', tr)"
    using state_step_rank [OF quic_send_dns_query_state [OF that(2)] that(1)] .
  have b: "state_rank (state ctx) \<le> state_rank (state ctx'')"
    if "state ctx \<noteq> CLOSED"
      "quic_recv_dns_response ext fam rounds (Some ctx) rbuf = Return (rl, Some ctx'', rbuf')"
    using state_step_rank [OF quic_recv_dns_response_state [OF that(2)] that(1)] .
  have n1: "quic_send_dns_query ext fam rounds None buf = Return (KNOT_NET_ESEND, None, [])"
    by (simp add: quic_send_dns_query_def)
  have n2: "quic_send_dns_query ext fam rounds (Some ctx) None
              = Return (KNOT_NET_ESEND, Some ctx, [])"
    by (simp add: quic_send_dns_query_def)
  have n3: "quic_recv_dns_response ext fam rounds None rbuf = Return (RET KNOT_EINVAL, None, rbuf)"
    by (simp add: quic_recv_dns_response_def)
  have n4: "quic_recv_dns_response ext fam rounds (Some ctx) None
              = Return (RET KNOT_EINVAL, Some ctx, None)"
    by (simp add: quic_recv_dns_response_def)
  have n5: "quic_recv_dns_response ext fam rounds (Some (ctx\<lparr>tls := None\<rparr>)) rbuf
              = Return (RET KNOT_EINVAL, Some (ctx\<lparr>tls := None\<rparr>), rbuf)"
    by (cases rbuf) (simp_all add: quic_recv_dns_response_def)
  show ?thesis
    using a b n1 n2 n3 n4 n5 quic_send_dns_query_same quic_recv_dns_response_same
    by blast
qed

theorem quic_state_forward_and_unread_witness:
  "state (ctx0\<lparr>state := OPENING\<rparr>) \<noteq> CLOSED \<and> state ctx_queued \<noteq> CLOSED \<and>
   (\<exists>c tr. quic_send_dns_query ext0 AF_INET
              [round_acked\<lparr>rd_recv := recv0 [HANDSHAKE_CONFIRMED, ACKED_STREAM_DATA_OFFSET 0 5] 0\<rparr>]
              (Some (ctx0\<lparr>state := OPENING\<rparr>)) (Some query3)
             = Return (KNOT_EOK, Some c, tr) \<and>
           state c = CONNECTED \<and>
           state_rank (state (ctx0\<lparr>state := OPENING\<rparr>)) \<le> state_rank (state c)) \<and>
   (\<exists>c. quic_recv_dns_response ext0 AF_INET [] (Some ctx_queued) (Some [9, 9, 9, 9])
           = Return (LEN 3, Some c, Some [1, 2, 3, 9]) \<and>
         state_rank (state ctx_queued) \<le> state_rank (state c)) \<and>
   same_result_opt
     (quic_send_dns_query ext0 AF_INET [round_acked] (Some (ctx0\<lparr>state := CLOSED\<rparr>)) (Some query3))
     (quic_send_dns_query ext0 AF_INET [round_acked] (Some ctx0) (Some query3)) \<and>
   same_result_opt
     (quic_recv_dns_response ext0 AF_INET [] (Some (ctx_queued\<lparr>state := CLOSED\<rparr>))
        (Some [9, 9, 9, 9]))
     (quic_recv_dns_response ext0 AF_INET [] (Some ctx_queued) (Some [9, 9, 9, 9]))"
proof -
  let ?r = "round_acked\<lparr>rd_recv := recv0 [HANDSHAKE_CONFIRMED, ACKED_STREAM_DATA_OFFSET 0 5] 0\<rparr>"
  let ?o = "ctx0\<lparr>state := OPENING\<rparr>"
  obtain c tr where
    r: "quic_send_dns_query ext0 AF_INET [?r] (Some ?o) (Some query3) = Return (KNOT_EOK, Some c, tr)"
    and sc: "state c = CONNECTED"
    by (simp add: quic_eval handshake_confirmed_cb_def)
  obtain d where
    q: "quic_recv_dns_response ext0 AF_INET [] (Some ctx_queued) (Some [9, 9, 9, 9])
          = Return (LEN 3, Some d, Some [1, 2, 3, 9])"
    by (simp add: quic_recv_dns_response_def quic_respcpy_def out_storage_len_def ret_is_zero_def
          ctx_queued_def ctx0_def Let_def numeral_3_eq_3)
  have o: "state ?o \<noteq> CLOSED" by simp
  have k: "state ctx_queued \<noteq> CLOSED" by (simp add: ctx_queued_def ctx0_def)
  note t1 = quic_state_forward_and_unread
    [where ctx = ?o and ext = ext0 and fam = AF_INET and rounds = "[?r]" and buf = "Some query3"
       and ret = KNOT_EOK and ctx' = c and tr = tr]
  note t2 = quic_state_forward_and_unread
    [where ctx = ctx_queued and ext = ext0 and fam = AF_INET and rounds = "[]"
       and rbuf = "Some [9, 9, 9, 9]" and rl = "LEN 3" and ctx'' = d
       and rbuf' = "Some [1, 2, 3, 9]" and s = CLOSED]
  note t3 = quic_state_forward_and_unread
    [where ctx = ctx0 and ext = ext0 and fam = AF_INET and rounds = "[round_acked]"
       and buf = "Some query3" and s = CLOSED]
  have a: "state_rank (state ?o) \<le> state_rank (state c)"
    using t1 r o by blast
  have b: "state_rank (state ctx_queued) \<le> state_rank (state d)"
    using t2 q k by blast
  show ?thesis
    using o k r sc a q b t2 t3 by blast
qed

text \<open>
  Neither operation returns \<open>KNOT_EINVAL\<close> on a context whose state is \<open>CLOSED\<close>:
  \<open>quic_recv_dns_response\<close> copies the waiting message and returns its length,
  \<open>quic_send_dns_query\<close> sends the query and returns \<open>KNOT_EOK\<close>. And the handshake
  callback sets \<open>CONNECTED\<close> whatever the state was, \<open>CLOSED\<close> included.
\<close>

theorem closed_state_counterexample:
  "state (ctx_queued\<lparr>state := CLOSED\<rparr>) = CLOSED \<and>
   quic_recv_dns_response ext0 AF_INET [] (Some (ctx_queued\<lparr>state := CLOSED\<rparr>))
     (Some [9, 9, 9, 9])
     = Return (LEN 3,
         Some (ctx_queued\<lparr>state := CLOSED,
                 stream := (stream ctx_queued)\<lparr>out_storage_it := 1\<rparr>\<rparr>),
         Some [1, 2, 3, 9]) \<and>
   (\<exists>c tr. quic_send_dns_query ext0 AF_INET [round_acked] (Some (ctx0\<lparr>state := CLOSED\<rparr>))
              (Some query3)
             = Return (KNOT_EOK, Some c, tr) \<and> state c = CLOSED) \<and>
   handshake_confirmed_cb (ctx0\<lparr>state := CLOSED\<rparr>) = (0, ctx0)"
proof -
  have a: "quic_recv_dns_response ext0 AF_INET [] (Some (ctx_queued\<lparr>state := CLOSED\<rparr>))
     (Some [9, 9, 9, 9])
     = Return (LEN 3,
         Some (ctx_queued\<lparr>state := CLOSED,
                 stream := (stream ctx_queued)\<lparr>out_storage_it := 1\<rparr>\<rparr>),
         Some [1, 2, 3, 9])"
    by (simp add: quic_recv_dns_response_def quic_respcpy_def out_storage_len_def ret_is_zero_def
          ctx_queued_def ctx0_def Let_def numeral_3_eq_3)
  have b: "\<exists>c tr. quic_send_dns_query ext0 AF_INET [round_acked] (Some (ctx0\<lparr>state := CLOSED\<rparr>))
              (Some query3)
             = Return (KNOT_EOK, Some c, tr) \<and> state c = CLOSED"
    by (simp add: quic_eval)
  have c: "handshake_confirmed_cb (ctx0\<lparr>state := CLOSED\<rparr>) = (0, ctx0)"
    by (simp add: handshake_confirmed_cb_def ctx0_def)
  show ?thesis using a b c by simp
qed

end
